theory Spec2Isabelle
  imports Main "HOL-Library.AList"
begin

section \<open>Accuracy and difficulty data: module/helpers/acc_diff/index.ts\<close>

text \<open>
  The module holds the data of an accuracy and difficulty roll: a weapon, a base and a
  list of targets, each with a \<open>plugins\<close> object that registered plugins extend. An
  aggregate is decoded from a plain object, hydrated by its constructor, and encoded back;
  the base and the targets compute a total.

  The embedding follows index.ts class by class. Three things the module uses are not in
  that file. The codecs come from the library io-ts: \<open>t.type\<close> is written out below as the
  library defines it. The helpers \<open>enclass\<close>, \<open>decode\<close> and \<open>encode\<close> (serde.ts) and the
  plugin interface (plugin.ts) belong to the repository; they are modelled from the
  specification, and each place says so. The scene, the actors' effects and the
  notifications belong to the game engine; they are the state \<open>World\<close>.
\<close>

subsection \<open>Values, errors and the outside world\<close>

text \<open>
  The enum \<open>Cover\<close> of the source (its member \<open>None\<close> is written \<open>CoverNone\<close>, the
  name \<open>None\<close> being taken) and the number each member stands for.
\<close>

datatype Cover = CoverNone | Soft | Hard

fun Cover_value :: "Cover \<Rightarrow> int" where
  "Cover_value CoverNone = 0"
| "Cover_value Soft = 1"
| "Cover_value Hard = 2"

text \<open>
  \<open>coverSchema\<close> is the union of the literals 0, 1 and 2: it accepts exactly these
  numbers. Accuracy, difficulty and cover are integers (the source's \<open>number\<close>, read as
  the specification does: plain integers); at run time a cover is the number of its enum
  member, and the entities hold it as such.
\<close>

definition coverSchema :: "int \<Rightarrow> bool" where
  "coverSchema n \<longleftrightarrow> n = 0 \<or> n = 1 \<or> n = 2"

text \<open>
  What the source throws. \<open>ValidationError\<close> carries the paths that failed validation
  (a path is a list of keys and array indices), \<open>TokenNotFound\<close> is
  \<open>Error("Token not found")\<close>, and \<open>TypeError\<close> is what JavaScript raises on reading
  a property of \<open>undefined\<close> or calling what is no function.
\<close>

datatype seg = Key string | Index nat

type_synonym path = "seg list"

datatype exn = ValidationError "path list" | TokenNotFound | TypeError

text \<open>
  A token is identified by its id: the scene's token collection is keyed by id, and
  \<open>token.id\<close> reads that id back. The world outside the module is the set of tokens of
  the current scene, the active effects of each token's actor, and the notifications
  shown to the user so far.

  An active effect has flags. The module reads \<open>eff.data.flags.core.statusId\<close>: the
  flags may have no \<open>core\<close> entry (\<open>None\<close>), which an effect that no status icon created
  does not have; where there is one, its \<open>statusId\<close> may be undefined (\<open>Some None\<close>).
  A token may have no actor (\<open>None\<close> for its effects).
\<close>

type_synonym Token = string

record ActiveEffect =
  effect_id :: nat
  flags_core :: "string option option"

record World =
  scene_tokens :: "Token list"
  actor_effects :: "Token \<Rightarrow> ActiveEffect list option"
  notifications :: "string list"

definition tokens_get :: "World \<Rightarrow> string \<Rightarrow> Token option" where
  "tokens_get w target_id = find (\<lambda>t. t = target_id) (scene_tokens w)"

definition notifications_error :: "string \<Rightarrow> World \<Rightarrow> World" where
  "notifications_error msg w = w\<lparr>notifications := notifications w @ [msg]\<rparr>"

subsection \<open>Objects and the order of their keys\<close>

text \<open>
  An object with string keys is an association list, in the order in which JavaScript
  lists the keys (\<open>Object.keys\<close>, the spread of an object): the keys that are array
  indices first, in ascending numeric order, then the other keys in the order in which
  they were added. An array index is the decimal numeral, with no superfluous zero, of a
  number below \<open>2^32 - 1\<close>.
\<close>

definition is_digit :: "char \<Rightarrow> bool" where
  "is_digit c \<longleftrightarrow> c \<in> set ''0123456789''"

definition digit_value :: "char \<Rightarrow> int" where
  "digit_value c = of_char c - 48"

definition index_value :: "string \<Rightarrow> int" where
  "index_value k = foldl (\<lambda>n c. 10 * n + digit_value c) 0 k"

definition is_array_index :: "string \<Rightarrow> bool" where
  "is_array_index k \<longleftrightarrow>
     k \<noteq> [] \<and> list_all is_digit k \<and> (k = ''0'' \<or> hd k \<noteq> CHR ''0'')
     \<and> index_value k < 4294967295"

text \<open>
  The assignment \<open>obj[k] = v\<close>. A key that the object has keeps its place; a new key
  that is an array index goes in among the indices, before the first key that is no
  smaller index; any other new key goes to the end.
\<close>

fun index_insert :: "string \<Rightarrow> 'v \<Rightarrow> (string \<times> 'v) list \<Rightarrow> (string \<times> 'v) list" where
  "index_insert k v [] = [(k, v)]"
| "index_insert k v ((k', v') # al) =
     (if is_array_index k' \<and> index_value k' < index_value k
      then (k', v') # index_insert k v al
      else (k, v) # (k', v') # al)"

definition object_set :: "string \<Rightarrow> 'v \<Rightarrow> (string \<times> 'v) list \<Rightarrow> (string \<times> 'v) list" where
  "object_set k v al =
     (if k \<in> fst ` set al then AList.update k v al
      else if is_array_index k then index_insert k v al
      else al @ [(k, v)])"

subsection \<open>The entities\<close>

text \<open>
  Plugin data is a value of some type \<open>'a\<close>, in a plain object and in an instance alike
  (JavaScript does not tell them apart); a \<open>plugins\<close> object is an association list from
  slug to value, in the order of its keys.

  A plain object is taken at the type the source gives the serialized form: its title is
  a string, its flags are booleans, its accuracy, difficulty and cover are numbers, its
  plugins are an object and its targets an array. On such an object the checks
  \<open>t.string\<close>, \<open>t.number\<close> and \<open>t.boolean\<close> of the schemas succeed, and they are not written
  out; what validation can still reject is a cover that is none of 0, 1, 2 and an entry
  of a \<open>plugins\<close> object. A plain object with a field of another type is outside this
  development, and no statement below is about one.

  The weapon's plain object and its instance have the same fields: the constructor
  copies them.
\<close>

record 'a AccDiffWeapon =
  accurate :: bool
  inaccurate :: bool
  seeking :: bool
  w_plugins :: "(string \<times> 'a) list"

text \<open>
  The base and the target, as instances. The private fields \<open>#weapon\<close> and \<open>#base\<close> are
  unset (\<open>None\<close>) until \<open>hydrate\<close> runs. No operation of the module changes an entity
  after hydration, so the copy held here and the reference held by the source agree.
\<close>

record 'a AccDiffBase =
  b_accuracy :: int
  b_difficulty :: int
  b_cover :: int
  b_plugins :: "(string \<times> 'a) list"
  b_weapon :: "'a AccDiffWeapon option"

record 'a AccDiffTarget =
  t_target :: Token
  t_accuracy :: int
  t_difficulty :: int
  t_cover :: int
  t_consumeLockOn :: bool
  t_plugins :: "(string \<times> 'a) list"
  t_weapon :: "'a AccDiffWeapon option"
  t_base :: "'a AccDiffBase option"

subsection \<open>Derived totals\<close>

text \<open>
  The accessors are written as the getters they are: they take the state they can reach
  (the world and the entity itself) and return it next to their value.
  \<open>AccDiffBase.total\<close> reads \<open>#weapon\<close>; before hydration that read is a \<open>TypeError\<close>.
\<close>

definition AccDiffBase_total ::
  "World \<Rightarrow> 'a AccDiffBase \<Rightarrow> (exn + int) \<times> World \<times> 'a AccDiffBase" where
  "AccDiffBase_total w b =
     (case b_weapon b of
        None \<Rightarrow> (Inl TypeError, w, b)
      | Some wp \<Rightarrow>
          (Inr (b_accuracy b - b_difficulty b
                + (if accurate wp then 1 else 0)
                - (if inaccurate wp then 1 else 0)
                - (if seeking wp then 0 else b_cover b)),
           w, b))"

text \<open>
  \<open>effects.find(eff => eff.data.flags.core.statusId == "lockon")\<close>: the effects are
  visited in order, and the first one whose status id is \<open>lockon\<close> is returned. The
  callback reads \<open>statusId\<close> of \<open>flags.core\<close> with no guard, so on an effect without
  \<open>core\<close> flags it throws a \<open>TypeError\<close>, which ends the search; an effect that comes
  after the one returned is never visited.
\<close>

fun effects_find_lockon :: "ActiveEffect list \<Rightarrow> exn + ActiveEffect option" where
  "effects_find_lockon [] = Inr None"
| "effects_find_lockon (eff # effs) =
     (case flags_core eff of
        None \<Rightarrow> Inl TypeError
      | Some sid \<Rightarrow>
          (if sid = Some ''lockon'' then Inr (Some eff) else effects_find_lockon effs))"

text \<open>
  \<open>lockOnAvailable\<close> reads the effects of the target's actor, a \<open>TypeError\<close> when the
  token has no actor, and searches them; \<open>usingLockOn\<close> is
  \<open>(consumeLockOn && lockOnAvailable) || null\<close>, so the search runs only when
  \<open>consumeLockOn\<close> is set. Both return the effect itself (the caller may delete it);
  neither deletes it.
\<close>

definition lockOnAvailable ::
  "World \<Rightarrow> 'a AccDiffTarget
     \<Rightarrow> (exn + ActiveEffect option) \<times> World \<times> 'a AccDiffTarget" where
  "lockOnAvailable w t =
     (case actor_effects w (t_target t) of
        None \<Rightarrow> (Inl TypeError, w, t)
      | Some effs \<Rightarrow> (effects_find_lockon effs, w, t))"

definition usingLockOn ::
  "World \<Rightarrow> 'a AccDiffTarget
     \<Rightarrow> (exn + ActiveEffect option) \<times> World \<times> 'a AccDiffTarget" where
  "usingLockOn w t =
     (if t_consumeLockOn t then lockOnAvailable w t else (Inr None, w, t))"

text \<open>
  \<open>AccDiffTarget.total\<close> reads \<open>#weapon\<close>, then \<open>#base\<close>, then \<open>usingLockOn\<close>; each of the
  three reads may throw.
\<close>

definition AccDiffTarget_total ::
  "World \<Rightarrow> 'a AccDiffTarget \<Rightarrow> (exn + int) \<times> World \<times> 'a AccDiffTarget" where
  "AccDiffTarget_total w t =
     (case t_weapon t of
        None \<Rightarrow> (Inl TypeError, w, t)
      | Some wp \<Rightarrow>
          (let base = t_accuracy t - t_difficulty t
                 + (if accurate wp then 1 else 0)
                 - (if inaccurate wp then 1 else 0)
                 - (if seeking wp then 0 else t_cover t)
           in case t_base t of
                None \<Rightarrow> (Inl TypeError, w, t)
              | Some b \<Rightarrow>
                  (let raw = base + b_accuracy b - b_difficulty b;
                       (r, w', t') = usingLockOn w t
                   in case r of
                        Inl e \<Rightarrow> (Inl e, w', t')
                      | Inr eff \<Rightarrow>
                          (let lockon = (if eff \<noteq> None then 1 else 0)
                           in (Inr (raw + lockon), w', t')))))"

text \<open>
  Modelled from the spec: the removal of a condition, which the condition lookup of the
  game engine offers and which the caller of \<open>usingLockOn\<close> may ask for with what it
  gets. The effect leaves its actor's list.
\<close>

definition effect_delete :: "Token \<Rightarrow> ActiveEffect \<Rightarrow> World \<Rightarrow> World" where
  "effect_delete tok eff w =
     w\<lparr>actor_effects :=
         (actor_effects w)(tok := map_option (remove1 eff) (actor_effects w tok))\<rparr>"

subsection \<open>Codecs\<close>

text \<open>
  Modelled from the spec: the codec a plugin supplies for its own data (plugin.ts is not
  among the sources). Decoding takes the value found under the plugin's slug, or nothing
  when the key is absent, and fails (\<open>None\<close>) or gives the plugin's data; encoding
  gives the plain value back. \<open>c_encode_undefined\<close> is what the codec's \<open>encode\<close>
  gives for \<open>undefined\<close>; it is \<open>None\<close> for a codec whose \<open>encode\<close> is the identity
  function of io-ts, which \<open>t.type\<close> does not call (assigning what such a codec encodes
  to the key it came from changes nothing).
\<close>

record 'a AccDiffPluginCodec =
  c_validate :: "'a option \<Rightarrow> 'a option"
  c_encode :: "'a \<Rightarrow> 'a"
  c_encode_undefined :: "'a option"

type_synonym 'a pluginSchema = "(string \<times> 'a AccDiffPluginCodec) list"

text \<open>
  \<open>t.type(props)\<close> of io-ts, on a \<open>plugins\<close> object. Validation goes through the keys
  of \<open>props\<close> in order, validates what the object has under each key (nothing, when
  the key is absent), records the key when that fails and stores the decoded value
  otherwise. It starts from the object itself, so an entry whose key is not in \<open>props\<close>
  stays as it is: \<open>type\<close> is not \<open>strict\<close>. Encoding starts from a copy of the object,
  goes through the same keys and assigns to each key the encoding of what the object has
  under it, of \<open>undefined\<close> when the object lacks the key; other entries stay.
\<close>

fun type_validate_loop ::
  "'a pluginSchema \<Rightarrow> (string \<times> 'a) list \<Rightarrow> (string \<times> 'a) list
     \<Rightarrow> path list \<times> (string \<times> 'a) list" where
  "type_validate_loop [] u a = ([], a)"
| "type_validate_loop ((k, c) # props) u a =
     (case c_validate c (map_of u k) of
        None \<Rightarrow> (let (errors, a') = type_validate_loop props u a in ([Key k] # errors, a'))
      | Some v \<Rightarrow> type_validate_loop props u (object_set k v a))"

definition type_validate ::
  "'a pluginSchema \<Rightarrow> (string \<times> 'a) list \<Rightarrow> path list + (string \<times> 'a) list" where
  "type_validate props u =
     (case type_validate_loop props u u of
        ([], a) \<Rightarrow> Inr a
      | (e # errors, a) \<Rightarrow> Inl (e # errors))"

fun type_encode_loop ::
  "'a pluginSchema \<Rightarrow> (string \<times> 'a) list \<Rightarrow> (string \<times> 'a) list \<Rightarrow> (string \<times> 'a) list" where
  "type_encode_loop [] a s = s"
| "type_encode_loop ((k, c) # props) a s =
     type_encode_loop props a
       (case map_of a k of
          Some v \<Rightarrow> object_set k (c_encode c v) s
        | None \<Rightarrow> (case c_encode_undefined c of None \<Rightarrow> s | Some v \<Rightarrow> object_set k v s))"

definition type_encode :: "'a pluginSchema \<Rightarrow> (string \<times> 'a) list \<Rightarrow> (string \<times> 'a) list" where
  "type_encode props a = type_encode_loop props a a"

definition under :: "seg \<Rightarrow> path list \<Rightarrow> path list" where
  "under k errors = map (\<lambda>p. k # p) errors"

subsection \<open>The weapon\<close>

text \<open>
  \<open>AccDiffWeapon.schemaCodec\<close> is \<open>t.type\<close> of three booleans and the plugins; on an
  object of the right field types only the plugins can fail.
\<close>

definition AccDiffWeapon_schemaCodec_validate ::
  "'a pluginSchema \<Rightarrow> 'a AccDiffWeapon \<Rightarrow> path list + 'a AccDiffWeapon" where
  "AccDiffWeapon_schemaCodec_validate pluginSchema u =
     (case type_validate pluginSchema (w_plugins u) of
        Inl errors \<Rightarrow> Inl (under (Key ''plugins'') errors)
      | Inr a \<Rightarrow> Inr (u\<lparr>w_plugins := a\<rparr>))"

definition AccDiffWeapon_new :: "'a AccDiffWeapon \<Rightarrow> 'a AccDiffWeapon" where
  "AccDiffWeapon_new obj =
     \<lparr>accurate = accurate obj, inaccurate = inaccurate obj, seeking = seeking obj,
      w_plugins = w_plugins obj\<rparr>"

definition AccDiffWeapon_raw :: "'a AccDiffWeapon \<Rightarrow> 'a AccDiffWeapon" where
  "AccDiffWeapon_raw this =
     \<lparr>accurate = accurate this, inaccurate = inaccurate this, seeking = seeking this,
      w_plugins = w_plugins this\<rparr>"

text \<open>
  Modelled from the spec: \<open>enclass\<close> (serde.ts is not among the sources), which binds a
  schema to a constructor. \<open>AccDiffWeapon.codec\<close> is \<open>enclass(schemaCodec, AccDiffWeapon)\<close>:
  it validates with the schema and, on success, calls the constructor on the validated
  value; it encodes the instance's \<open>raw\<close> with the schema.
\<close>

definition AccDiffWeapon_codec_validate ::
  "'a pluginSchema \<Rightarrow> 'a AccDiffWeapon \<Rightarrow> path list + 'a AccDiffWeapon" where
  "AccDiffWeapon_codec_validate pluginSchema u =
     (case AccDiffWeapon_schemaCodec_validate pluginSchema u of
        Inl errors \<Rightarrow> Inl errors
      | Inr v \<Rightarrow> Inr (AccDiffWeapon_new v))"

definition AccDiffWeapon_codec_encode ::
  "'a pluginSchema \<Rightarrow> 'a AccDiffWeapon \<Rightarrow> 'a AccDiffWeapon" where
  "AccDiffWeapon_codec_encode pluginSchema this =
     (let r = AccDiffWeapon_raw this
      in r\<lparr>w_plugins := type_encode pluginSchema (w_plugins r)\<rparr>)"

subsection \<open>The base\<close>

record 'a AccDiffBase_obj =
  bo_accuracy :: int
  bo_difficulty :: int
  bo_cover :: int
  bo_plugins :: "(string \<times> 'a) list"

text \<open>
  The schema's keys are accuracy, difficulty, cover and plugins, in this order; the
  errors come in the same order.
\<close>

definition AccDiffBase_schemaCodec_validate ::
  "'a pluginSchema \<Rightarrow> 'a AccDiffBase_obj \<Rightarrow> path list + 'a AccDiffBase_obj" where
  "AccDiffBase_schemaCodec_validate pluginSchema u =
     (let cover_errors = (if coverSchema (bo_cover u) then [] else [[Key ''cover'']])
      in case type_validate pluginSchema (bo_plugins u) of
           Inl errors \<Rightarrow> Inl (cover_errors @ under (Key ''plugins'') errors)
         | Inr a \<Rightarrow>
             (if cover_errors = [] then Inr (u\<lparr>bo_plugins := a\<rparr>) else Inl cover_errors))"

definition AccDiffBase_new :: "'a AccDiffBase_obj \<Rightarrow> 'a AccDiffBase" where
  "AccDiffBase_new obj =
     \<lparr>b_accuracy = bo_accuracy obj, b_difficulty = bo_difficulty obj, b_cover = bo_cover obj,
      b_plugins = bo_plugins obj, b_weapon = None\<rparr>"

definition AccDiffBase_raw :: "'a AccDiffBase \<Rightarrow> 'a AccDiffBase_obj" where
  "AccDiffBase_raw this =
     \<lparr>bo_accuracy = b_accuracy this, bo_difficulty = b_difficulty this,
      bo_cover = b_cover this, bo_plugins = b_plugins this\<rparr>"

text \<open>
  Modelled from the spec: \<open>enclass\<close>, as for the weapon. \<open>AccDiffBase.codec\<close> is
  \<open>enclass(schemaCodec, AccDiffBase)\<close>.
\<close>

definition AccDiffBase_codec_validate ::
  "'a pluginSchema \<Rightarrow> 'a AccDiffBase_obj \<Rightarrow> path list + 'a AccDiffBase" where
  "AccDiffBase_codec_validate pluginSchema u =
     (case AccDiffBase_schemaCodec_validate pluginSchema u of
        Inl errors \<Rightarrow> Inl errors
      | Inr v \<Rightarrow> Inr (AccDiffBase_new v))"

definition AccDiffBase_codec_encode ::
  "'a pluginSchema \<Rightarrow> 'a AccDiffBase \<Rightarrow> 'a AccDiffBase_obj" where
  "AccDiffBase_codec_encode pluginSchema this =
     (let r = AccDiffBase_raw this
      in r\<lparr>bo_plugins := type_encode pluginSchema (bo_plugins r)\<rparr>)"

subsection \<open>The target\<close>

record 'a AccDiffTarget_obj =
  to_target_id :: string
  to_accuracy :: int
  to_difficulty :: int
  to_cover :: int
  to_consumeLockOn :: bool
  to_plugins :: "(string \<times> 'a) list"

definition AccDiffTarget_schemaCodec_validate ::
  "'a pluginSchema \<Rightarrow> 'a AccDiffTarget_obj \<Rightarrow> path list + 'a AccDiffTarget_obj" where
  "AccDiffTarget_schemaCodec_validate pluginSchema u =
     (let cover_errors = (if coverSchema (to_cover u) then [] else [[Key ''cover'']])
      in case type_validate pluginSchema (to_plugins u) of
           Inl errors \<Rightarrow> Inl (cover_errors @ under (Key ''plugins'') errors)
         | Inr a \<Rightarrow>
             (if cover_errors = [] then Inr (u\<lparr>to_plugins := a\<rparr>) else Inl cover_errors))"

text \<open>
  The constructor looks the token up in the current scene. When it is not there, it
  notifies the user and throws; nothing is constructed.
\<close>

definition AccDiffTarget_new ::
  "'a AccDiffTarget_obj \<Rightarrow> World \<Rightarrow> (exn + 'a AccDiffTarget) \<times> World" where
  "AccDiffTarget_new obj w =
     (case tokens_get w (to_target_id obj) of
        None \<Rightarrow>
          (Inl TokenNotFound,
           notifications_error ''Trying to access tokens from a different scene!'' w)
      | Some target \<Rightarrow>
          (Inr \<lparr>t_target = target, t_accuracy = to_accuracy obj,
                t_difficulty = to_difficulty obj, t_cover = to_cover obj,
                t_consumeLockOn = to_consumeLockOn obj, t_plugins = to_plugins obj,
                t_weapon = None, t_base = None\<rparr>,
           w))"

definition AccDiffTarget_raw :: "'a AccDiffTarget \<Rightarrow> 'a AccDiffTarget_obj" where
  "AccDiffTarget_raw this =
     \<lparr>to_target_id = t_target this, to_accuracy = t_accuracy this,
      to_difficulty = t_difficulty this, to_cover = t_cover this,
      to_consumeLockOn = t_consumeLockOn this, to_plugins = t_plugins this\<rparr>"

text \<open>
  Modelled from the spec: \<open>enclass\<close>, as for the weapon. \<open>AccDiffTarget.codec\<close> is
  \<open>enclass(schemaCodec, AccDiffTarget)\<close>: a value that fails the schema is a validation
  failure and the constructor, which takes the validated value, does not run; a valid
  one goes to the constructor, which may throw.
\<close>

definition AccDiffTarget_codec_validate ::
  "'a pluginSchema \<Rightarrow> 'a AccDiffTarget_obj \<Rightarrow> World
     \<Rightarrow> (exn + (path list + 'a AccDiffTarget)) \<times> World" where
  "AccDiffTarget_codec_validate pluginSchema u w =
     (case AccDiffTarget_schemaCodec_validate pluginSchema u of
        Inl errors \<Rightarrow> (Inr (Inl errors), w)
      | Inr v \<Rightarrow>
          (case AccDiffTarget_new v w of
             (Inl e, w') \<Rightarrow> (Inl e, w')
           | (Inr t, w') \<Rightarrow> (Inr (Inr t), w')))"

definition AccDiffTarget_codec_encode ::
  "'a pluginSchema \<Rightarrow> 'a AccDiffTarget \<Rightarrow> 'a AccDiffTarget_obj" where
  "AccDiffTarget_codec_encode pluginSchema this =
     (let r = AccDiffTarget_raw this
      in r\<lparr>to_plugins := type_encode pluginSchema (to_plugins r)\<rparr>)"

text \<open>
  \<open>t.array(AccDiffTarget.codec)\<close>: the elements are validated in order, each under its
  index; the failures are collected, and an exception leaves at once.
\<close>

fun array_validate ::
  "'a pluginSchema \<Rightarrow> nat \<Rightarrow> 'a AccDiffTarget_obj list \<Rightarrow> World
     \<Rightarrow> (exn + path list \<times> 'a AccDiffTarget list) \<times> World" where
  "array_validate pluginSchema i [] w = (Inr ([], []), w)"
| "array_validate pluginSchema i (u # us) w =
     (case AccDiffTarget_codec_validate pluginSchema u w of
        (Inl e, w') \<Rightarrow> (Inl e, w')
      | (Inr r, w') \<Rightarrow>
          (case array_validate pluginSchema (Suc i) us w' of
             (Inl e, w'') \<Rightarrow> (Inl e, w'')
           | (Inr (errors, ts), w'') \<Rightarrow>
               (case r of
                  Inl errs \<Rightarrow> (Inr (under (Index i) errs @ errors, ts), w'')
                | Inr t \<Rightarrow> (Inr (errors, t # ts), w''))))"

subsection \<open>Hydration\<close>

text \<open>
  Modelled from the spec: a plugin's \<open>hydrate\<close> (plugin.ts is not among the sources). What
  it does to the plugin's own data is the parameter \<open>hyd\<close>; on a value that has no
  \<open>hydrate\<close> method (\<open>None\<close>) the call is a \<open>TypeError\<close>. The method is passed the
  aggregate and the entity; what a plugin reads from them is outside the model.

  The \<open>hydrate\<close> methods are written with the trace of what they do, in order: the call
  itself, each write of a private back-reference, each call of a plugin's \<open>hydrate\<close>
  with the key and the value it is called on. The entity an event belongs to is the
  receiver of the call: the weapon, the base, or a target. A target is given as it is
  when its \<open>hydrate\<close> is called, next to its place in the list of the loop that calls
  it (the method itself does not know the place; two equal targets at different places
  are told apart by it). The trace of a call that throws ends where it throws.
\<close>

datatype 'a entity = TheWeapon | TheBase | TheTarget nat "'a AccDiffTarget"

datatype 'a event =
  Hydrate "'a entity"
  | SetWeapon "'a entity"
  | SetBase "'a entity"
  | PluginHydrate "'a entity" string 'a

fun hydrate_plugins ::
  "('a \<Rightarrow> 'a option) \<Rightarrow> 'a entity \<Rightarrow> (string \<times> 'a) list
     \<Rightarrow> (exn + (string \<times> 'a) list) \<times> 'a event list" where
  "hydrate_plugins hyd e [] = (Inr [], [])"
| "hydrate_plugins hyd e ((key, v) # ps) =
     (case hyd v of
        None \<Rightarrow> (Inl TypeError, [PluginHydrate e key v])
      | Some v' \<Rightarrow>
          (case hydrate_plugins hyd e ps of
             (Inl x, tr) \<Rightarrow> (Inl x, PluginHydrate e key v # tr)
           | (Inr ps', tr) \<Rightarrow> (Inr ((key, v') # ps'), PluginHydrate e key v # tr)))"

text \<open>
  The aggregate, which the \<open>hydrate\<close> methods are passed. The fields are also those of
  the value its schema validates: entities that are constructed and not yet hydrated.
\<close>

record 'a AccDiffData =
  title :: string
  weapon :: "'a AccDiffWeapon"
  base :: "'a AccDiffBase"
  targets :: "'a AccDiffTarget list"

definition AccDiffWeapon_hydrate ::
  "('a \<Rightarrow> 'a option) \<Rightarrow> 'a AccDiffData \<Rightarrow> 'a AccDiffWeapon
     \<Rightarrow> (exn + 'a AccDiffWeapon) \<times> 'a event list" where
  "AccDiffWeapon_hydrate hyd d this =
     (case hydrate_plugins hyd TheWeapon (w_plugins this) of
        (Inl x, tr) \<Rightarrow> (Inl x, Hydrate TheWeapon # tr)
      | (Inr ps, tr) \<Rightarrow> (Inr (this\<lparr>w_plugins := ps\<rparr>), Hydrate TheWeapon # tr))"

definition AccDiffBase_hydrate ::
  "('a \<Rightarrow> 'a option) \<Rightarrow> 'a AccDiffData \<Rightarrow> 'a AccDiffBase
     \<Rightarrow> (exn + 'a AccDiffBase) \<times> 'a event list" where
  "AccDiffBase_hydrate hyd d this =
     (let this1 = this\<lparr>b_weapon := Some (weapon d)\<rparr>
      in case hydrate_plugins hyd TheBase (b_plugins this1) of
           (Inl x, tr) \<Rightarrow> (Inl x, Hydrate TheBase # SetWeapon TheBase # tr)
         | (Inr ps, tr) \<Rightarrow>
             (Inr (this1\<lparr>b_plugins := ps\<rparr>), Hydrate TheBase # SetWeapon TheBase # tr))"

definition AccDiffTarget_hydrate ::
  "('a \<Rightarrow> 'a option) \<Rightarrow> 'a AccDiffData \<Rightarrow> nat \<Rightarrow> 'a AccDiffTarget
     \<Rightarrow> (exn + 'a AccDiffTarget) \<times> 'a event list" where
  "AccDiffTarget_hydrate hyd d i this =
     (let e = TheTarget i this;
          this1 = this\<lparr>t_weapon := Some (weapon d)\<rparr>;
          this2 = this1\<lparr>t_base := Some (base d)\<rparr>
      in case hydrate_plugins hyd e (t_plugins this2) of
           (Inl x, tr) \<Rightarrow> (Inl x, Hydrate e # SetWeapon e # SetBase e # tr)
         | (Inr ps, tr) \<Rightarrow>
             (Inr (this2\<lparr>t_plugins := ps\<rparr>), Hydrate e # SetWeapon e # SetBase e # tr))"

text \<open>The loop \<open>for (let target of this.targets) target.hydrate(this)\<close>, from index \<open>i\<close> on.\<close>

fun hydrate_targets ::
  "('a \<Rightarrow> 'a option) \<Rightarrow> 'a AccDiffData \<Rightarrow> nat \<Rightarrow> 'a AccDiffTarget list
     \<Rightarrow> (exn + 'a AccDiffTarget list) \<times> 'a event list" where
  "hydrate_targets hyd d i [] = (Inr [], [])"
| "hydrate_targets hyd d i (t # ts) =
     (case AccDiffTarget_hydrate hyd d i t of
        (Inl x, tr) \<Rightarrow> (Inl x, tr)
      | (Inr t', tr) \<Rightarrow>
          (case hydrate_targets hyd d (Suc i) ts of
             (Inl x, tr') \<Rightarrow> (Inl x, tr @ tr')
           | (Inr ts', tr') \<Rightarrow> (Inr (t' # ts'), tr @ tr')))"

subsection \<open>The aggregate\<close>

text \<open>
  The constructor copies the four fields and hydrates the weapon, the base and the
  targets. Its argument is what the schema validated: entities already constructed, not
  yet hydrated.
\<close>

definition AccDiffData_new ::
  "('a \<Rightarrow> 'a option) \<Rightarrow> 'a AccDiffData \<Rightarrow> (exn + 'a AccDiffData) \<times> 'a event list" where
  "AccDiffData_new hyd obj =
     (let this = \<lparr>title = title obj, weapon = weapon obj, base = base obj,
                  targets = targets obj\<rparr>
      in case AccDiffWeapon_hydrate hyd this (weapon this) of
           (Inl x, tr1) \<Rightarrow> (Inl x, tr1)
         | (Inr wp, tr1) \<Rightarrow>
             (let this1 = this\<lparr>weapon := wp\<rparr>
              in case AccDiffBase_hydrate hyd this1 (base this1) of
                   (Inl x, tr2) \<Rightarrow> (Inl x, tr1 @ tr2)
                 | (Inr b, tr2) \<Rightarrow>
                     (let this2 = this1\<lparr>base := b\<rparr>
                      in case hydrate_targets hyd this2 0 (targets this2) of
                           (Inl x, tr3) \<Rightarrow> (Inl x, tr1 @ tr2 @ tr3)
                         | (Inr ts, tr3) \<Rightarrow>
                             (Inr (this2\<lparr>targets := ts\<rparr>), tr1 @ tr2 @ tr3))))"

record 'a AccDiffData_obj =
  o_title :: string
  o_weapon :: "'a AccDiffWeapon"
  o_base :: "'a AccDiffBase_obj"
  o_targets :: "'a AccDiffTarget_obj list"

text \<open>
  Modelled from the spec: a plugin (its interface is in plugin.ts, not among the sources;
  the fields are those index.ts reads). It has a slug, a codec, and up to three producers
  of default data: for the roll (from the item, when there is one), for the unknown
  target, and for a target.
\<close>

record ('i, 'a) AccDiffPlugin =
  slug :: string
  codec :: "'a AccDiffPluginCodec"
  perRoll :: "('i option \<Rightarrow> 'a) option"
  perUnknownTarget :: "'a option"
  perTarget :: "(Token \<Rightarrow> 'a) option"

text \<open>The static fields of the four classes: the state that \<open>registerPlugin\<close> changes.\<close>

record ('i, 'a) Statics =
  AccDiffWeapon_pluginSchema :: "'a pluginSchema"
  AccDiffBase_pluginSchema :: "'a pluginSchema"
  AccDiffTarget_pluginSchema :: "'a pluginSchema"
  AccDiffData_plugins :: "('i, 'a) AccDiffPlugin list"
  AccDiffData_targetedPlugins :: "('i, 'a) AccDiffPlugin list"

definition initial_statics :: "('i, 'a) Statics" where
  "initial_statics =
     \<lparr>AccDiffWeapon_pluginSchema = [], AccDiffBase_pluginSchema = [],
      AccDiffTarget_pluginSchema = [], AccDiffData_plugins = [],
      AccDiffData_targetedPlugins = []\<rparr>"

definition registerPlugin ::
  "('i, 'a) AccDiffPlugin \<Rightarrow> ('i, 'a) Statics \<Rightarrow> ('i, 'a) Statics" where
  "registerPlugin plugin s =
     (let s1 = (if perRoll plugin \<noteq> None
                then s\<lparr>AccDiffWeapon_pluginSchema :=
                         object_set (slug plugin) (codec plugin) (AccDiffWeapon_pluginSchema s)\<rparr>
                else s);
          s2 = (if perUnknownTarget plugin \<noteq> None
                then s1\<lparr>AccDiffBase_pluginSchema :=
                          object_set (slug plugin) (codec plugin) (AccDiffBase_pluginSchema s1)\<rparr>
                else s1);
          s3 = (if perTarget plugin \<noteq> None
                then s2\<lparr>AccDiffTarget_pluginSchema :=
                          object_set (slug plugin) (codec plugin) (AccDiffTarget_pluginSchema s2),
                        AccDiffData_targetedPlugins := AccDiffData_targetedPlugins s2 @ [plugin]\<rparr>
                else s2)
      in s3\<lparr>AccDiffData_plugins := AccDiffData_plugins s3 @ [plugin]\<rparr>)"

text \<open>
  \<open>AccDiffData.schemaCodec\<close> is \<open>t.type\<close> of title, weapon, base and targets, validated in
  this order with the class codecs of the entities. All failures are collected; an
  exception of a target's constructor leaves at once.
\<close>

definition AccDiffData_schemaCodec_validate ::
  "('i, 'a) Statics \<Rightarrow> 'a AccDiffData_obj \<Rightarrow> World
     \<Rightarrow> (exn + (path list + 'a AccDiffData)) \<times> World" where
  "AccDiffData_schemaCodec_validate s u w =
     (let rw = AccDiffWeapon_codec_validate (AccDiffWeapon_pluginSchema s) (o_weapon u);
          rb = AccDiffBase_codec_validate (AccDiffBase_pluginSchema s) (o_base u)
      in case array_validate (AccDiffTarget_pluginSchema s) 0 (o_targets u) w of
           (Inl e, w') \<Rightarrow> (Inl e, w')
         | (Inr (terrors, ts), w') \<Rightarrow>
             (let errors =
                    (case rw of Inl es \<Rightarrow> under (Key ''weapon'') es | Inr _ \<Rightarrow> [])
                    @ (case rb of Inl es \<Rightarrow> under (Key ''base'') es | Inr _ \<Rightarrow> [])
                    @ under (Key ''targets'') terrors
              in case (rw, rb) of
                   (Inr wp, Inr b) \<Rightarrow>
                     (if errors = []
                      then (Inr (Inr \<lparr>title = o_title u, weapon = wp, base = b, targets = ts\<rparr>), w')
                      else (Inr (Inl errors), w'))
                 | _ \<Rightarrow> (Inr (Inl errors), w')))"

text \<open>
  Modelled from the spec: \<open>enclass\<close> and \<open>decode\<close> (serde.ts is not among the sources).
  \<open>AccDiffData.codec\<close> is \<open>enclass(schemaCodec, AccDiffData)\<close>, and \<open>fromObject\<close> is
  \<open>decode(obj, AccDiffData.codec)\<close>: it validates and throws a validation failure as a
  \<open>ValidationError\<close> that carries the failing paths. An exception of a constructor passes
  through.
\<close>

definition AccDiffData_codec_validate ::
  "('i, 'a) Statics \<Rightarrow> ('a \<Rightarrow> 'a option) \<Rightarrow> 'a AccDiffData_obj \<Rightarrow> World
     \<Rightarrow> (exn + (path list + 'a AccDiffData)) \<times> World" where
  "AccDiffData_codec_validate s hyd u w =
     (case AccDiffData_schemaCodec_validate s u w of
        (Inl e, w') \<Rightarrow> (Inl e, w')
      | (Inr (Inl errors), w') \<Rightarrow> (Inr (Inl errors), w')
      | (Inr (Inr v), w') \<Rightarrow>
          (case AccDiffData_new hyd v of
             (Inl e, tr) \<Rightarrow> (Inl e, w')
           | (Inr d, tr) \<Rightarrow> (Inr (Inr d), w')))"

definition AccDiffData_fromObject ::
  "('i, 'a) Statics \<Rightarrow> ('a \<Rightarrow> 'a option) \<Rightarrow> 'a AccDiffData_obj \<Rightarrow> World
     \<Rightarrow> (exn + 'a AccDiffData) \<times> World" where
  "AccDiffData_fromObject s hyd obj w =
     (case AccDiffData_codec_validate s hyd obj w of
        (Inl e, w') \<Rightarrow> (Inl e, w')
      | (Inr (Inl errors), w') \<Rightarrow> (Inl (ValidationError errors), w')
      | (Inr (Inr d), w') \<Rightarrow> (Inr d, w'))"

text \<open>
  Modelled from the spec: \<open>encode\<close> (serde.ts is not among the sources). \<open>toObject\<close> is
  \<open>encode(this, AccDiffData.codec)\<close>: the aggregate's \<open>raw\<close>, each entity encoded by its
  class codec.
\<close>

definition AccDiffData_raw :: "'a AccDiffData \<Rightarrow> 'a AccDiffData" where
  "AccDiffData_raw this =
     \<lparr>title = title this, weapon = weapon this, base = base this, targets = targets this\<rparr>"

definition AccDiffData_toObject :: "('i, 'a) Statics \<Rightarrow> 'a AccDiffData \<Rightarrow> 'a AccDiffData_obj" where
  "AccDiffData_toObject s this =
     (let r = AccDiffData_raw this
      in \<lparr>o_title = title r,
          o_weapon = AccDiffWeapon_codec_encode (AccDiffWeapon_pluginSchema s) (weapon r),
          o_base = AccDiffBase_codec_encode (AccDiffBase_pluginSchema s) (base r),
          o_targets = map (AccDiffTarget_codec_encode (AccDiffTarget_pluginSchema s)) (targets r)\<rparr>)"

subsection \<open>The factory\<close>

record TagInstance =
  Tag_LID :: string

text \<open>The body of the loop over the tags: the \<open>switch\<close> on \<open>tag.Tag.LID\<close>.\<close>

definition tag_switch :: "'a AccDiffWeapon \<Rightarrow> TagInstance \<Rightarrow> 'a AccDiffWeapon" where
  "tag_switch wp tag =
     (if Tag_LID tag = ''tg_accurate'' then wp\<lparr>accurate := True\<rparr>
      else if Tag_LID tag = ''tg_inaccurate'' then wp\<lparr>inaccurate := True\<rparr>
      else if Tag_LID tag = ''tg_seeking'' then wp\<lparr>seeking := True\<rparr>
      else wp)"

text \<open>The target record built for one token, with the defaults of the targeted plugins.\<close>

definition fromParams_target ::
  "('i, 'a) AccDiffPlugin list \<Rightarrow> Token \<Rightarrow> 'a AccDiffTarget_obj" where
  "fromParams_target targetedPlugins t =
     foldl (\<lambda>ret plugin.
              (case perTarget plugin of
                 None \<Rightarrow> ret
               | Some f \<Rightarrow>
                   ret\<lparr>to_plugins :=
                         object_set (slug plugin) (c_encode (codec plugin) (f t)) (to_plugins ret)\<rparr>))
       \<lparr>to_target_id = t, to_accuracy = 0, to_difficulty = 0,
        to_cover = Cover_value CoverNone, to_consumeLockOn = True, to_plugins = []\<rparr>
       targetedPlugins"

text \<open>The body of the loop over all plugins: the defaults for the roll and the base.\<close>

definition fromParams_plugin ::
  "'i option \<Rightarrow> 'a AccDiffData_obj \<Rightarrow> ('i, 'a) AccDiffPlugin \<Rightarrow> 'a AccDiffData_obj" where
  "fromParams_plugin item obj plugin =
     (let obj1 = (case perRoll plugin of
                    None \<Rightarrow> obj
                  | Some f \<Rightarrow>
                      obj\<lparr>o_weapon := (o_weapon obj)\<lparr>w_plugins :=
                            object_set (slug plugin) (c_encode (codec plugin) (f item))
                              (w_plugins (o_weapon obj))\<rparr>\<rparr>)
      in case perUnknownTarget plugin of
           None \<Rightarrow> obj1
         | Some v \<Rightarrow>
             obj1\<lparr>o_base := (o_base obj1)\<lparr>bo_plugins :=
                   object_set (slug plugin) (c_encode (codec plugin) v)
                     (bo_plugins (o_base obj1))\<rparr>\<rparr>)"

text \<open>
  The plain object \<open>fromParams\<close> builds; an argument left out is \<open>None\<close>. A title that is
  left out or empty is falsy.
\<close>

definition fromParams_obj ::
  "('i, 'a) Statics \<Rightarrow> 'i option \<Rightarrow> TagInstance list option \<Rightarrow> string option
     \<Rightarrow> Token list option \<Rightarrow> (int \<times> int) option \<Rightarrow> 'a AccDiffData_obj" where
  "fromParams_obj s item tags title_arg targets_arg starting =
     (let weapon0 = \<lparr>accurate = False, inaccurate = False, seeking = False, w_plugins = []\<rparr>;
          weapon1 = foldl tag_switch weapon0 (case tags of None \<Rightarrow> [] | Some ts \<Rightarrow> ts);
          base1 = \<lparr>bo_accuracy = (case starting of None \<Rightarrow> 0 | Some (a, d) \<Rightarrow> a),
                  bo_difficulty = (case starting of None \<Rightarrow> 0 | Some (a, d) \<Rightarrow> d),
                  bo_cover = Cover_value CoverNone,
                  bo_plugins = []\<rparr>;
          obj = \<lparr>o_title =
                   (case title_arg of
                      None \<Rightarrow> ''Accuracy and Difficulty''
                    | Some t \<Rightarrow>
                        (if t \<noteq> [] then t @ '' - Accuracy and Difficulty''
                         else ''Accuracy and Difficulty'')),
                 o_weapon = weapon1, o_base = base1,
                 o_targets =
                   map (fromParams_target (AccDiffData_targetedPlugins s))
                     (case targets_arg of None \<Rightarrow> [] | Some ts \<Rightarrow> ts)\<rparr>
      in foldl (fromParams_plugin item) obj (AccDiffData_plugins s))"

definition AccDiffData_fromParams ::
  "('i, 'a) Statics \<Rightarrow> ('a \<Rightarrow> 'a option) \<Rightarrow> 'i option \<Rightarrow> TagInstance list option
     \<Rightarrow> string option \<Rightarrow> Token list option \<Rightarrow> (int \<times> int) option \<Rightarrow> World
     \<Rightarrow> (exn + 'a AccDiffData) \<times> World" where
  "AccDiffData_fromParams s hyd item tags title_arg targets_arg starting w =
     AccDiffData_fromObject s hyd
       (fromParams_obj s item tags title_arg targets_arg starting) w"

subsection \<open>What validation looks at\<close>

text \<open>
  Notions for stating what the validation of a \<open>plugins\<close> object depends on: every
  registered key validates (on what the object has under it, or on nothing); some
  registered key is absent and its codec rejects an absent value; a target's plain object
  passes its schema; a whole plain object passes the schemas of all its entities.
\<close>

definition registered_keys_valid :: "'a pluginSchema \<Rightarrow> (string \<times> 'a) list \<Rightarrow> bool" where
  "registered_keys_valid props u = list_all (\<lambda>(k, c). c_validate c (map_of u k) \<noteq> None) props"


definition target_passes :: "'a pluginSchema \<Rightarrow> 'a AccDiffTarget_obj \<Rightarrow> bool" where
  "target_passes props u \<longleftrightarrow>
     coverSchema (to_cover u) \<and> registered_keys_valid props (to_plugins u)"

definition object_passes :: "('i, 'a) Statics \<Rightarrow> 'a AccDiffData_obj \<Rightarrow> bool" where
  "object_passes s obj \<longleftrightarrow>
     registered_keys_valid (AccDiffWeapon_pluginSchema s) (w_plugins (o_weapon obj))
     \<and> coverSchema (bo_cover (o_base obj))
     \<and> registered_keys_valid (AccDiffBase_pluginSchema s) (bo_plugins (o_base obj))
     \<and> list_all (target_passes (AccDiffTarget_pluginSchema s)) (o_targets obj)"

subsection \<open>Decoding and hydration as relations\<close>

text \<open>
  Shorthand for what decoding and hydration do, entry by entry: a \<open>plugins\<close> object
  hydrates to another when they have the same keys in the same order and each value
  hydrates to the value opposite; a target's plain object decodes to the target that
  copies its fields, with the token found in the scene and the plugins validated; a
  target hydrates to the one that has the aggregate's weapon and base and the hydrated
  plugins.
\<close>

abbreviation hydrates :: "('a \<Rightarrow> 'a option) \<Rightarrow> (string \<times> 'a) list \<Rightarrow> (string \<times> 'a) list \<Rightarrow> bool" where
  "hydrates hyd a xs \<equiv> list_all2 (\<lambda>(k, v) (k', v'). k' = k \<and> hyd v = Some v') a xs"

abbreviation decodes_target ::
  "'a pluginSchema \<Rightarrow> World \<Rightarrow> 'a AccDiffTarget_obj \<Rightarrow> 'a AccDiffTarget \<Rightarrow> bool" where
  "decodes_target ps w u t \<equiv>
     coverSchema (to_cover u) \<and> to_target_id u \<in> set (scene_tokens w)
     \<and> (\<exists>a. type_validate ps (to_plugins u) = Inr a
          \<and> t = \<lparr>t_target = to_target_id u, t_accuracy = to_accuracy u,
                 t_difficulty = to_difficulty u, t_cover = to_cover u,
                 t_consumeLockOn = to_consumeLockOn u, t_plugins = a,
                 t_weapon = None, t_base = None\<rparr>)"

abbreviation hydrates_target ::
  "('a \<Rightarrow> 'a option) \<Rightarrow> 'a AccDiffData \<Rightarrow> 'a AccDiffTarget \<Rightarrow> 'a AccDiffTarget \<Rightarrow> bool" where
  "hydrates_target hyd d t t' \<equiv>
     \<exists>ps. hydrates hyd (t_plugins t) ps
       \<and> t' = t\<lparr>t_weapon := Some (weapon d), t_base := Some (base d), t_plugins := ps\<rparr>"

text \<open>
  A \<open>plugins\<close> object of an instance survives the round trip when its encoding
  validates against the schema and the validated entries hydrate to the entries it has.
\<close>

definition plugins_roundtrip ::
  "('a \<Rightarrow> 'a option) \<Rightarrow> 'a pluginSchema \<Rightarrow> (string \<times> 'a) list \<Rightarrow> bool" where
  "plugins_roundtrip hyd props xs =
     (case type_validate props (type_encode props xs) of
        Inl errors \<Rightarrow> False
      | Inr a \<Rightarrow> hydrates hyd a xs)"

text \<open>
  The same, entry by entry. Encoding changes the entries under the keys of the schema and
  leaves the others. An entry survives the round trip when, under a key of the schema, the
  codec validates its own encoding of the value to a value that hydrates to it; under any
  other key, which encoding and validation leave alone, when the value hydrates to
  itself.
\<close>

definition encode_entry :: "'a pluginSchema \<Rightarrow> string \<times> 'a \<Rightarrow> string \<times> 'a" where
  "encode_entry props e =
     (fst e, case map_of props (fst e) of None \<Rightarrow> snd e | Some c \<Rightarrow> c_encode c (snd e))"

definition entry_roundtrip :: "('a \<Rightarrow> 'a option) \<Rightarrow> 'a pluginSchema \<Rightarrow> string \<times> 'a \<Rightarrow> bool" where
  "entry_roundtrip hyd props e =
     (case map_of props (fst e) of
        None \<Rightarrow> hyd (snd e) = Some (snd e)
      | Some c \<Rightarrow>
          (case c_validate c (Some (c_encode c (snd e))) of
             None \<Rightarrow> False
           | Some v \<Rightarrow> hyd v = Some (snd e)))"

text \<open>
  The fields of an instance other than the back-references and the \<open>plugins\<close> objects.
\<close>

definition weapon_flags :: "'a AccDiffWeapon \<Rightarrow> bool \<times> bool \<times> bool" where
  "weapon_flags wp = (accurate wp, inaccurate wp, seeking wp)"

definition base_numbers :: "'a AccDiffBase \<Rightarrow> int \<times> int \<times> int" where
  "base_numbers b = (b_accuracy b, b_difficulty b, b_cover b)"

definition target_fields :: "'a AccDiffTarget \<Rightarrow> Token \<times> int \<times> int \<times> int \<times> bool" where
  "target_fields t = (t_target t, t_accuracy t, t_difficulty t, t_cover t, t_consumeLockOn t)"

subsection \<open>Reading a trace\<close>

text \<open>The calls of an entity's \<open>hydrate\<close>, and the writes of a back-reference.\<close>

fun is_hydrate_call :: "'a event \<Rightarrow> bool" where
  "is_hydrate_call (Hydrate e) = True"
| "is_hydrate_call _ = False"

fun is_backref_write :: "'a event \<Rightarrow> bool" where
  "is_backref_write (SetWeapon e) = True"
| "is_backref_write (SetBase e) = True"
| "is_backref_write _ = False"

text \<open>
  The order of hydration, written after the specification's words for the entities the
  constructor is given: the weapon, then the base, then each target in list order; for
  each entity the call, then the wiring of its back-references (the base's weapon; a
  target's weapon, then its base), then the hydration of its plugin values, taken in the
  order of the keys. The constructor's trace is compared with this one.
\<close>

definition plugin_calls :: "'a entity \<Rightarrow> (string \<times> 'a) list \<Rightarrow> 'a event list" where
  "plugin_calls e ps = map (\<lambda>(key, v). PluginHydrate e key v) ps"

definition target_order :: "nat \<Rightarrow> 'a AccDiffTarget \<Rightarrow> 'a event list" where
  "target_order i t =
     (let e = TheTarget i t
      in Hydrate e # SetWeapon e # SetBase e # plugin_calls e (t_plugins t))"

definition hydration_order :: "'a AccDiffData \<Rightarrow> 'a event list" where
  "hydration_order obj =
     (Hydrate TheWeapon # plugin_calls TheWeapon (w_plugins (weapon obj)))
     @ (Hydrate TheBase # SetWeapon TheBase # plugin_calls TheBase (b_plugins (base obj)))
     @ concat (map (\<lambda>(i, t). target_order i t) (enumerate 0 (targets obj)))"

text \<open>The writes of a target's back-references: its weapon, then its base.\<close>

definition target_writes :: "nat \<Rightarrow> 'a AccDiffTarget \<Rightarrow> 'a event list" where
  "target_writes i t = [SetWeapon (TheTarget i t), SetBase (TheTarget i t)]"

subsection \<open>Example inputs\<close>

text \<open>
  A plugin for the examples: its plain data is a boolean (\<open>Plain\<close>), its decoded data an
  object that wraps the boolean and has a \<open>hydrate\<close> method (\<open>Live\<close>). It takes part
  per unknown target and per target. The scene has two tokens; the actor of the first one
  carries a lock-on.
\<close>

datatype exval = Plain bool | Live bool

definition ex_codec :: "exval AccDiffPluginCodec" where
  "ex_codec =
     \<lparr>c_validate = (\<lambda>u. case u of Some (Plain b) \<Rightarrow> Some (Live b) | _ \<Rightarrow> None),
      c_encode = (\<lambda>v. case v of Live b \<Rightarrow> Plain b | Plain b \<Rightarrow> Plain b),
      c_encode_undefined = Some (Plain False)\<rparr>"

definition ex_hydrate :: "exval \<Rightarrow> exval option" where
  "ex_hydrate v = (case v of Live b \<Rightarrow> Some (Live b) | Plain b \<Rightarrow> None)"

definition ex_plugin :: "(unit, exval) AccDiffPlugin" where
  "ex_plugin =
     \<lparr>slug = ''example'', codec = ex_codec, perRoll = None,
      perUnknownTarget = Some (Live False), perTarget = Some (\<lambda>t. Live True)\<rparr>"

definition ex_statics :: "(unit, exval) Statics" where
  "ex_statics = registerPlugin ex_plugin initial_statics"

definition ex_world :: World where
  "ex_world =
     \<lparr>scene_tokens = [''tokA'', ''tokB''],
      actor_effects =
        (\<lambda>t. if t = ''tokA'' then Some [\<lparr>effect_id = 7, flags_core = Some (Some ''lockon'')\<rparr>]
              else Some []),
      notifications = []\<rparr>"

text \<open>
  The same scene, where the actor of the first token also carries an effect that has no
  \<open>core\<close> flags, listed before the lock-on.
\<close>

definition ex_world_flagless :: World where
  "ex_world_flagless =
     ex_world\<lparr>actor_effects :=
       (\<lambda>t. if t = ''tokA''
             then Some [\<lparr>effect_id = 3, flags_core = None\<rparr>,
                        \<lparr>effect_id = 7, flags_core = Some (Some ''lockon'')\<rparr>]
             else Some [])\<rparr>"

text \<open>
  The instance that the factory gives for no tags, the title \<open>Shot\<close>, the two tokens and
  the starting pair (1, 0); the plain object it is decoded from; the same entities before
  hydration; and the trace of hydrating them.
\<close>

definition ex_weapon :: "exval AccDiffWeapon" where
  "ex_weapon = \<lparr>accurate = False, inaccurate = False, seeking = False, w_plugins = []\<rparr>"

definition ex_base :: "exval AccDiffBase" where
  "ex_base =
     \<lparr>b_accuracy = 1, b_difficulty = 0, b_cover = 0, b_plugins = [(''example'', Live False)],
      b_weapon = Some ex_weapon\<rparr>"

definition ex_target :: "Token \<Rightarrow> exval AccDiffTarget" where
  "ex_target tok =
     \<lparr>t_target = tok, t_accuracy = 0, t_difficulty = 0, t_cover = 0, t_consumeLockOn = True,
      t_plugins = [(''example'', Live True)], t_weapon = Some ex_weapon, t_base = Some ex_base\<rparr>"

definition ex_data :: "exval AccDiffData" where
  "ex_data =
     \<lparr>title = ''Shot - Accuracy and Difficulty'', weapon = ex_weapon, base = ex_base,
      targets = [ex_target ''tokA'', ex_target ''tokB'']\<rparr>"

definition ex_obj :: "exval AccDiffData_obj" where
  "ex_obj =
     \<lparr>o_title = ''Shot - Accuracy and Difficulty'',
      o_weapon = ex_weapon,
      o_base = \<lparr>bo_accuracy = 1, bo_difficulty = 0, bo_cover = 0,
                bo_plugins = [(''example'', Plain False)]\<rparr>,
      o_targets =
        [\<lparr>to_target_id = ''tokA'', to_accuracy = 0, to_difficulty = 0, to_cover = 0,
          to_consumeLockOn = True, to_plugins = [(''example'', Plain True)]\<rparr>,
         \<lparr>to_target_id = ''tokB'', to_accuracy = 0, to_difficulty = 0, to_cover = 0,
          to_consumeLockOn = True, to_plugins = [(''example'', Plain True)]\<rparr>]\<rparr>"

definition ex_fresh :: "Token \<Rightarrow> exval AccDiffTarget" where
  "ex_fresh tok = (ex_target tok)\<lparr>t_weapon := None, t_base := None\<rparr>"

definition ex_decoded :: "exval AccDiffData" where
  "ex_decoded =
     \<lparr>title = ''Shot - Accuracy and Difficulty'', weapon = ex_weapon,
      base = ex_base\<lparr>b_weapon := None\<rparr>,
      targets = [ex_fresh ''tokA'', ex_fresh ''tokB'']\<rparr>"

definition ex_trace :: "exval event list" where
  "ex_trace =
     [Hydrate TheWeapon,
      Hydrate TheBase, SetWeapon TheBase, PluginHydrate TheBase ''example'' (Live False),
      Hydrate (TheTarget 0 (ex_fresh ''tokA'')), SetWeapon (TheTarget 0 (ex_fresh ''tokA'')),
      SetBase (TheTarget 0 (ex_fresh ''tokA'')),
      PluginHydrate (TheTarget 0 (ex_fresh ''tokA'')) ''example'' (Live True),
      Hydrate (TheTarget 1 (ex_fresh ''tokB'')), SetWeapon (TheTarget 1 (ex_fresh ''tokB'')),
      SetBase (TheTarget 1 (ex_fresh ''tokB'')),
      PluginHydrate (TheTarget 1 (ex_fresh ''tokB'')) ''example'' (Live True)]"

text \<open>
  Another aggregate, with an accurate weapon, for hydrating a target of the first one a
  second time.
\<close>

definition ex_other :: "exval AccDiffData" where
  "ex_other =
     \<lparr>title = ''Other'', weapon = ex_weapon\<lparr>accurate := True\<rparr>,
      base = ex_base\<lparr>b_accuracy := 5, b_weapon := Some (ex_weapon\<lparr>accurate := True\<rparr>)\<rparr>,
      targets = []\<rparr>"

text \<open>
  Plain objects that differ from the first example: a first target whose token is not in
  the scene and whose plugin entry is absent; a second target whose token is not in the
  scene; a base with an entry under a slug that no plugin registered; a base without its
  plugin entry.
\<close>

definition ex_obj_stale :: "exval AccDiffData_obj" where
  "ex_obj_stale =
     ex_obj\<lparr>o_targets :=
       [\<lparr>to_target_id = ''gone'', to_accuracy = 0, to_difficulty = 0, to_cover = 0,
         to_consumeLockOn = True, to_plugins = []\<rparr>,
        \<lparr>to_target_id = ''tokB'', to_accuracy = 0, to_difficulty = 0, to_cover = 0,
         to_consumeLockOn = True, to_plugins = [(''example'', Plain True)]\<rparr>]\<rparr>"

definition ex_obj_gone :: "exval AccDiffData_obj" where
  "ex_obj_gone =
     ex_obj\<lparr>o_targets :=
       [\<lparr>to_target_id = ''tokA'', to_accuracy = 0, to_difficulty = 0, to_cover = 0,
         to_consumeLockOn = True, to_plugins = [(''example'', Plain True)]\<rparr>,
        \<lparr>to_target_id = ''gone'', to_accuracy = 0, to_difficulty = 0, to_cover = 0,
         to_consumeLockOn = True, to_plugins = [(''example'', Plain True)]\<rparr>]\<rparr>"



text \<open>
  A plugin for the unknown target whose codec writes its flag as false whenever it
  encodes, whatever the flag is; the only plugin registered; a plain object whose flag is
  true, the instance decoded from it, and the instance decoded from that one's encoding.
\<close>

definition ex_lossy_codec :: "exval AccDiffPluginCodec" where
  "ex_lossy_codec = ex_codec\<lparr>c_encode := (\<lambda>v. Plain False)\<rparr>"

definition ex_lossy_plugin :: "(unit, exval) AccDiffPlugin" where
  "ex_lossy_plugin =
     \<lparr>slug = ''lossy'', codec = ex_lossy_codec, perRoll = None,
      perUnknownTarget = Some (Live False), perTarget = None\<rparr>"

definition ex_lossy_statics :: "(unit, exval) Statics" where
  "ex_lossy_statics = registerPlugin ex_lossy_plugin initial_statics"

definition ex_lossy_obj :: "exval AccDiffData_obj" where
  "ex_lossy_obj =
     \<lparr>o_title = ''Shot - Accuracy and Difficulty'',
      o_weapon = ex_weapon,
      o_base = \<lparr>bo_accuracy = 1, bo_difficulty = 0, bo_cover = 0,
                bo_plugins = [(''lossy'', Plain True)]\<rparr>,
      o_targets = []\<rparr>"

definition ex_lossy_data :: "bool \<Rightarrow> exval AccDiffData" where
  "ex_lossy_data flag =
     \<lparr>title = ''Shot - Accuracy and Difficulty'', weapon = ex_weapon,
      base = ex_base\<lparr>b_plugins := [(''lossy'', Live flag)]\<rparr>,
      targets = []\<rparr>"

section \<open>Properties\<close>

subsection \<open>Auxiliary facts\<close>

subsubsection \<open>Assigning to a key\<close>

lemma map_of_index_insert:
  "map_of (index_insert k v al) k' = (if k' = k then Some v else map_of al k')"
  by (induction al) auto


lemma update_absent: "k \<notin> fst ` set al \<Longrightarrow> AList.update k v al = al @ [(k, v)]"
  by (induction al) auto

lemma object_set_name: "\<not> is_array_index k \<Longrightarrow> object_set k v al = AList.update k v al"
  by (simp add: object_set_def update_absent)

lemma keys_index_insert: "fst ` set (index_insert k v al) = insert k (fst ` set al)"
proof -
  have "dom (map_of (index_insert k v al)) = insert k (dom (map_of al))"
    by (auto simp add: map_of_index_insert split: if_splits)
  then show ?thesis by (simp only: dom_map_of_conv_image_fst)
qed

lemma keys_object_set: "fst ` set (object_set k v al) = insert k (fst ` set al)"
  by (auto simp add: object_set_def keys_index_insert dom_update)

lemma distinct_index_insert:
  "k \<notin> fst ` set al \<Longrightarrow> distinct (map fst al) \<Longrightarrow> distinct (map fst (index_insert k v al))"
proof (induction al)
  case Nil
  then show ?case by simp
next
  case (Cons p al)
  then show ?case
    using keys_index_insert [of k v al] by (cases p) (auto simp del: keys_index_insert)
qed

lemma distinct_object_set:
  "distinct (map fst al) \<Longrightarrow> distinct (map fst (object_set k v al))"
  by (auto simp add: object_set_def distinct_update distinct_index_insert)

lemma object_set_present:
  "k \<in> fst ` set al \<Longrightarrow> distinct (map fst al) \<Longrightarrow>
     object_set k v al = map (\<lambda>e. if fst e = k then (k, v) else e) al"
proof -
  assume k: "k \<in> fst ` set al" and d: "distinct (map fst al)"
  from d have "AList.update k v al = map (\<lambda>e. if fst e = k then (k, v) else e) al"
    if "k \<in> fst ` set al" using that
  proof (induction al)
    case Nil
    then show ?case by simp
  next
    case (Cons p al)
    obtain k' v' where p: "p = (k', v')" by (cases p)
    show ?case
    proof (cases "k' = k")
      case True
      with Cons.prems p have "k \<notin> fst ` set al" by auto
      then have "map (\<lambda>e. if fst e = k then (k, v) else e) al = al"
        by (induction al) auto
      with True p show ?thesis by simp
    next
      case False
      with Cons p show ?thesis by auto
    qed
  qed
  with k show ?thesis by (simp add: object_set_def)
qed

lemma fold_object_set_map:
  assumes "distinct (map fst props)" and "distinct (map fst l)"
    and "fst ` set props \<subseteq> fst ` set l"
  shows "fold (\<lambda>(k, c). object_set k (G k c)) props l =
           map (\<lambda>e. case map_of props (fst e) of None \<Rightarrow> e | Some c \<Rightarrow> (fst e, G (fst e) c)) l"
  using assms
proof (induction props arbitrary: l)
  case Nil
  then show ?case by simp
next
  case (Cons p props)
  obtain k c where p: "p = (k, c)" by (cases p)
  from Cons.prems p have kin: "k \<in> fst ` set l" and notin: "k \<notin> fst ` set props"
    and d: "distinct (map fst props)" and sub: "fst ` set props \<subseteq> fst ` set l"
    by auto
  let ?l1 = "object_set k (G k c) l"
  have l1: "?l1 = map (\<lambda>e. if fst e = k then (k, G k c) else e) l"
    using kin Cons.prems(2) by (rule object_set_present)
  have d1: "distinct (map fst ?l1)" using Cons.prems(2) by (rule distinct_object_set)
  have sub1: "fst ` set props \<subseteq> fst ` set ?l1" using sub by (auto simp add: keys_object_set)
  have "fold (\<lambda>(k, c). object_set k (G k c)) (p # props) l
      = fold (\<lambda>(k, c). object_set k (G k c)) props ?l1" by (simp add: p)
  also have "\<dots> = map (\<lambda>e. case map_of props (fst e) of None \<Rightarrow> e
                              | Some c \<Rightarrow> (fst e, G (fst e) c)) ?l1"
    using d d1 sub1 by (rule Cons.IH)
  also have "\<dots> = map (\<lambda>e. case map_of (p # props) (fst e) of None \<Rightarrow> e
                              | Some c \<Rightarrow> (fst e, G (fst e) c)) l"
  proof -
    have "map_of props k = None" using notin by (simp add: map_of_eq_None_iff)
    then show ?thesis
      unfolding l1 by (auto simp add: p)
  qed
  finally show ?case .
qed

lemma keys_fold_object_set:
  "fst ` set (fold (\<lambda>(k, c). object_set k (f k c)) props l) = fst ` set props \<union> fst ` set l"
proof (induction props arbitrary: l)
  case Nil
  then show ?case by simp
next
  case (Cons p props)
  obtain k c where p: "p = (k, c)" by (cases p)
  have "fst ` set (fold (\<lambda>(k, c). object_set k (f k c)) (p # props) l)
      = fst ` set props \<union> fst ` set (object_set k (f k c) l)"
    using Cons.IH [of "object_set k (f k c) l"] by (simp add: p)
  also have "\<dots> = fst ` set (p # props) \<union> fst ` set l"
    unfolding keys_object_set by (auto simp add: p)
  finally show ?case .
qed

lemma distinct_fold_object_set:
  "distinct (map fst l) \<Longrightarrow> distinct (map fst (fold (\<lambda>(k, c). object_set k (f k c)) props l))"
  by (induction props arbitrary: l) (auto simp add: distinct_object_set)

lemma example_keys:
  "\<not> is_array_index ''example''" "\<not> is_array_index ''ghost''" "\<not> is_array_index ''lossy''"
  by (simp_all add: is_array_index_def is_digit_def)

subsubsection \<open>What a successful decoding says\<close>

lemma under_Nil_iff [simp]: "under k errors = [] \<longleftrightarrow> errors = []"
  by (simp add: under_def)

lemma fromObject_Inr_iff:
  "AccDiffData_fromObject s hyd obj w = (Inr d, w') \<longleftrightarrow>
     (\<exists>wp b ts tr.
        AccDiffWeapon_codec_validate (AccDiffWeapon_pluginSchema s) (o_weapon obj) = Inr wp
        \<and> AccDiffBase_codec_validate (AccDiffBase_pluginSchema s) (o_base obj) = Inr b
        \<and> array_validate (AccDiffTarget_pluginSchema s) 0 (o_targets obj) w = (Inr ([], ts), w')
        \<and> AccDiffData_new hyd \<lparr>title = o_title obj, weapon = wp, base = b, targets = ts\<rparr>
            = (Inr d, tr))"
  unfolding AccDiffData_fromObject_def AccDiffData_codec_validate_def
    AccDiffData_schemaCodec_validate_def Let_def
  by (auto split: prod.splits sum.splits if_splits)

lemma AccDiffData_new_Inr_iff:
  "AccDiffData_new hyd v = (Inr d, tr) \<longleftrightarrow>
     (\<exists>wps tr1 bps tr2 ts tr3.
        hydrate_plugins hyd TheWeapon (w_plugins (weapon v)) = (Inr wps, tr1)
        \<and> hydrate_plugins hyd TheBase (b_plugins (base v)) = (Inr bps, tr2)
        \<and> hydrate_targets hyd
             (v\<lparr>weapon := (weapon v)\<lparr>w_plugins := wps\<rparr>,
                base := (base v)\<lparr>b_weapon := Some ((weapon v)\<lparr>w_plugins := wps\<rparr>),
                                 b_plugins := bps\<rparr>\<rparr>) 0 (targets v) = (Inr ts, tr3)
        \<and> d = v\<lparr>weapon := (weapon v)\<lparr>w_plugins := wps\<rparr>,
                base := (base v)\<lparr>b_weapon := Some ((weapon v)\<lparr>w_plugins := wps\<rparr>),
                                 b_plugins := bps\<rparr>,
                targets := ts\<rparr>
        \<and> tr = (Hydrate TheWeapon # tr1) @ (Hydrate TheBase # SetWeapon TheBase # tr2) @ tr3)"
  unfolding AccDiffData_new_def AccDiffWeapon_hydrate_def AccDiffBase_hydrate_def Let_def
  by (cases v) (auto split: prod.splits sum.splits)

lemma AccDiffWeapon_codec_validate_Inr_iff:
  "AccDiffWeapon_codec_validate ps u = Inr wp \<longleftrightarrow>
     (\<exists>a. type_validate ps (w_plugins u) = Inr a \<and> wp = u\<lparr>w_plugins := a\<rparr>)"
  unfolding AccDiffWeapon_codec_validate_def AccDiffWeapon_schemaCodec_validate_def
    AccDiffWeapon_new_def
  by (cases u) (auto split: sum.splits)

lemma AccDiffBase_codec_validate_Inr_iff:
  "AccDiffBase_codec_validate ps u = Inr b \<longleftrightarrow>
     (\<exists>a. coverSchema (bo_cover u) \<and> type_validate ps (bo_plugins u) = Inr a
          \<and> b = \<lparr>b_accuracy = bo_accuracy u, b_difficulty = bo_difficulty u,
                  b_cover = bo_cover u, b_plugins = a, b_weapon = None\<rparr>)"
  unfolding AccDiffBase_codec_validate_def AccDiffBase_schemaCodec_validate_def
    AccDiffBase_new_def Let_def
  by (cases u) (auto split: sum.splits)

lemma type_validate_not_Inl_Nil [simp]: "type_validate ps u \<noteq> Inl []"
  by (simp add: type_validate_def split: prod.splits list.splits)

lemma find_eq_conv: "find (\<lambda>t. t = i) xs = (if i \<in> set xs then Some i else None)"
  by (induction xs) auto

lemma tokens_get_eq:
  "tokens_get w i = (if i \<in> set (scene_tokens w) then Some i else None)"
  by (simp add: tokens_get_def find_eq_conv)

lemma AccDiffTarget_schemaCodec_validate_Inr_iff:
  "AccDiffTarget_schemaCodec_validate ps u = Inr v \<longleftrightarrow>
     coverSchema (to_cover u)
     \<and> (\<exists>a. type_validate ps (to_plugins u) = Inr a \<and> v = u\<lparr>to_plugins := a\<rparr>)"
  unfolding AccDiffTarget_schemaCodec_validate_def Let_def
  by (auto split: sum.splits)

lemma AccDiffTarget_schemaCodec_validate_not_Inl_Nil [simp]:
  "AccDiffTarget_schemaCodec_validate ps u \<noteq> Inl []"
  unfolding AccDiffTarget_schemaCodec_validate_def Let_def
  by (auto split: sum.splits)

lemma AccDiffTarget_codec_validate_Inr_Inr_iff:
  "AccDiffTarget_codec_validate ps u w = (Inr (Inr t), w') \<longleftrightarrow>
     w' = w \<and> coverSchema (to_cover u) \<and> to_target_id u \<in> set (scene_tokens w)
     \<and> (\<exists>a. type_validate ps (to_plugins u) = Inr a
          \<and> t = \<lparr>t_target = to_target_id u, t_accuracy = to_accuracy u,
                 t_difficulty = to_difficulty u, t_cover = to_cover u,
                 t_consumeLockOn = to_consumeLockOn u, t_plugins = a,
                 t_weapon = None, t_base = None\<rparr>)"
proof (cases "AccDiffTarget_schemaCodec_validate ps u")
  case (Inl errs)
  then have "\<not> (coverSchema (to_cover u) \<and> (\<exists>a. type_validate ps (to_plugins u) = Inr a))"
    using AccDiffTarget_schemaCodec_validate_Inr_iff [of ps u] by auto
  with Inl show ?thesis
    by (auto simp add: AccDiffTarget_codec_validate_def)
next
  case (Inr v)
  then obtain a where "coverSchema (to_cover u)" "type_validate ps (to_plugins u) = Inr a"
    "v = u\<lparr>to_plugins := a\<rparr>"
    using AccDiffTarget_schemaCodec_validate_Inr_iff [of ps u v] by auto
  with Inr show ?thesis
    by (auto simp add: AccDiffTarget_codec_validate_def AccDiffTarget_new_def tokens_get_eq)
qed

lemma AccDiffTarget_codec_validate_Inr_Inl:
  "AccDiffTarget_codec_validate ps u w = (Inr (Inl errs), w') \<Longrightarrow> errs \<noteq> []"
  unfolding AccDiffTarget_codec_validate_def
  by (auto split: sum.splits prod.splits)

lemma array_validate_Inr_iff:
  "array_validate ps i us w = (Inr ([], ts), w') \<longleftrightarrow>
     w' = w
     \<and> list_all2 (\<lambda>u t. coverSchema (to_cover u)
          \<and> to_target_id u \<in> set (scene_tokens w)
          \<and> (\<exists>a. type_validate ps (to_plugins u) = Inr a
               \<and> t = \<lparr>t_target = to_target_id u, t_accuracy = to_accuracy u,
                    t_difficulty = to_difficulty u, t_cover = to_cover u,
                    t_consumeLockOn = to_consumeLockOn u, t_plugins = a,
                    t_weapon = None, t_base = None\<rparr>)) us ts"
  (is "?L i us ts \<longleftrightarrow> w' = w \<and> list_all2 ?P us ts")
proof (induction us arbitrary: i ts)
  case Nil
  then show ?case by auto
next
  case (Cons u us)
  have head: "?P u t \<longleftrightarrow> AccDiffTarget_codec_validate ps u w = (Inr (Inr t), w)" for t
    by (auto simp add: AccDiffTarget_codec_validate_Inr_Inr_iff)
  obtain r w1 where r: "AccDiffTarget_codec_validate ps u w = (r, w1)"
    by (cases "AccDiffTarget_codec_validate ps u w")
  show ?case
  proof (cases r)
    case (Inl e)
    with r have "\<not> ?L i (u # us) ts" by simp
    moreover from Inl r have "\<not> ?P u t" for t unfolding head by simp
    then have "\<not> list_all2 ?P (u # us) ts" by (cases ts) auto
    ultimately show ?thesis by blast
  next
    case (Inr v)
    show ?thesis
    proof (cases v)
      case (Inl errs)
      with Inr r have ne: "errs \<noteq> []" by (auto dest: AccDiffTarget_codec_validate_Inr_Inl)
      with Inl Inr r have "\<not> ?L i (u # us) ts"
        by (auto simp add: under_def split: prod.splits sum.splits)
      moreover from Inl Inr r have "\<not> ?P u t" for t unfolding head by simp
      then have "\<not> list_all2 ?P (u # us) ts" by (cases ts) auto
      ultimately show ?thesis by blast
    next
      case t0: (Inr t0)
      with Inr r have w1: "w1 = w" and P0: "?P u t0"
        by (auto simp add: AccDiffTarget_codec_validate_Inr_Inr_iff)
      have uniq: "?P u t \<Longrightarrow> t = t0" for t
        using P0 by auto
      have L: "?L i (u # us) ts \<longleftrightarrow> (\<exists>ts'. ts = t0 # ts' \<and> ?L (Suc i) us ts')"
        using r Inr t0 w1 by (auto split: prod.splits sum.splits)
      have R: "list_all2 ?P (u # us) ts \<longleftrightarrow> (\<exists>ts'. ts = t0 # ts' \<and> list_all2 ?P us ts')"
        using P0 uniq by (cases ts) auto
      show ?thesis unfolding L R using Cons.IH by auto
    qed
  qed
qed

lemma array_validate_length:
  "array_validate ps i us w = (Inr ([], ts), w') \<Longrightarrow> length ts = length us \<and> w' = w"
  by (auto simp add: array_validate_Inr_iff dest: list_all2_lengthD)

lemma hydrate_targets_length:
  "hydrate_targets hyd d i ts = (Inr ts', tr) \<Longrightarrow> length ts' = length ts"
  by (induction ts arbitrary: i ts' tr) (auto split: prod.splits sum.splits)

lemma fromObject_fields:
  assumes "AccDiffData_fromObject s hyd obj w = (Inr d, w')"
  shows "title d = o_title obj"
    and "accurate (weapon d) = accurate (o_weapon obj)"
    and "inaccurate (weapon d) = inaccurate (o_weapon obj)"
    and "seeking (weapon d) = seeking (o_weapon obj)"
    and "b_accuracy (base d) = bo_accuracy (o_base obj)"
    and "b_difficulty (base d) = bo_difficulty (o_base obj)"
    and "b_cover (base d) = bo_cover (o_base obj)"
    and "length (targets d) = length (o_targets obj)"
    and "w' = w"
proof -
  from assms obtain wp b ts tr where
    1: "AccDiffWeapon_codec_validate (AccDiffWeapon_pluginSchema s) (o_weapon obj) = Inr wp"
    and 2: "AccDiffBase_codec_validate (AccDiffBase_pluginSchema s) (o_base obj) = Inr b"
    and 3: "array_validate (AccDiffTarget_pluginSchema s) 0 (o_targets obj) w = (Inr ([], ts), w')"
    and 4: "AccDiffData_new hyd \<lparr>title = o_title obj, weapon = wp, base = b, targets = ts\<rparr>
            = (Inr d, tr)"
    unfolding fromObject_Inr_iff by blast
  from 3 show "w' = w" by (simp add: array_validate_length)
  from 4 show "title d = o_title obj" by (auto simp add: AccDiffData_new_Inr_iff)
  from 1 4 show "accurate (weapon d) = accurate (o_weapon obj)"
    by (auto simp add: AccDiffData_new_Inr_iff AccDiffWeapon_codec_validate_Inr_iff)
  from 1 4 show "inaccurate (weapon d) = inaccurate (o_weapon obj)"
    by (auto simp add: AccDiffData_new_Inr_iff AccDiffWeapon_codec_validate_Inr_iff)
  from 1 4 show "seeking (weapon d) = seeking (o_weapon obj)"
    by (auto simp add: AccDiffData_new_Inr_iff AccDiffWeapon_codec_validate_Inr_iff)
  from 2 4 show "b_accuracy (base d) = bo_accuracy (o_base obj)"
    by (auto simp add: AccDiffData_new_Inr_iff AccDiffBase_codec_validate_Inr_iff)
  from 2 4 show "b_difficulty (base d) = bo_difficulty (o_base obj)"
    by (auto simp add: AccDiffData_new_Inr_iff AccDiffBase_codec_validate_Inr_iff)
  from 2 4 show "b_cover (base d) = bo_cover (o_base obj)"
    by (auto simp add: AccDiffData_new_Inr_iff AccDiffBase_codec_validate_Inr_iff)
  from 3 4 show "length (targets d) = length (o_targets obj)"
    by (auto simp add: AccDiffData_new_Inr_iff dest!: array_validate_length hydrate_targets_length)
qed

subsubsection \<open>The loops of the factory\<close>

lemma foldl_tag_switch:
  "accurate (foldl tag_switch wp tags) =
     (accurate wp \<or> ''tg_accurate'' \<in> Tag_LID ` set tags)"
  "inaccurate (foldl tag_switch wp tags) =
     (inaccurate wp \<or> ''tg_inaccurate'' \<in> Tag_LID ` set tags)"
  "seeking (foldl tag_switch wp tags) =
     (seeking wp \<or> ''tg_seeking'' \<in> Tag_LID ` set tags)"
  by (induction tags arbitrary: wp; auto simp add: tag_switch_def)+

lemma foldl_fromParams_plugin:
  "o_title (foldl (fromParams_plugin item) obj ps) = o_title obj"
  "accurate (o_weapon (foldl (fromParams_plugin item) obj ps)) = accurate (o_weapon obj)"
  "inaccurate (o_weapon (foldl (fromParams_plugin item) obj ps)) = inaccurate (o_weapon obj)"
  "seeking (o_weapon (foldl (fromParams_plugin item) obj ps)) = seeking (o_weapon obj)"
  by (induction ps arbitrary: obj;
      simp add: fromParams_plugin_def Let_def split: option.splits)+

subsubsection \<open>Hydration\<close>

lemma hydrate_plugins_InrD:
  "hydrate_plugins hyd e ps = (Inr ps', tr) \<Longrightarrow>
     list_all2 (\<lambda>(k, v) (k', v'). k' = k \<and> hyd v = Some v') ps ps' \<and> tr = plugin_calls e ps"
  by (induction ps arbitrary: ps' tr)
     (auto simp add: plugin_calls_def split: option.splits prod.splits sum.splits)

lemma hydrate_plugins_InrI:
  "list_all2 (\<lambda>(k, v) (k', v'). k' = k \<and> hyd v = Some v') ps ps' \<Longrightarrow>
     hydrate_plugins hyd e ps = (Inr ps', plugin_calls e ps)"
  by (induction ps ps' rule: list_all2_induct) (auto simp add: plugin_calls_def)

lemma hydrate_plugins_Inr_iff:
  "hydrate_plugins hyd e ps = (Inr ps', tr) \<longleftrightarrow>
     list_all2 (\<lambda>(k, v) (k', v'). k' = k \<and> hyd v = Some v') ps ps' \<and> tr = plugin_calls e ps"
  using hydrate_plugins_InrD [of hyd e ps ps' tr] hydrate_plugins_InrI [of hyd ps ps' e]
  by blast

lemma plugin_calls_filter [simp]:
  "filter is_hydrate_call (plugin_calls e ps) = []"
  "filter is_backref_write (plugin_calls e ps) = []"
  by (induction ps; auto simp add: plugin_calls_def)+

lemma hydrate_plugins_total:
  "(\<forall>v \<in> snd ` set ps. hyd v \<noteq> None) \<Longrightarrow> \<exists>ps' tr. hydrate_plugins hyd e ps = (Inr ps', tr)"
  by (induction ps) (auto split: option.splits prod.splits sum.splits)

lemma AccDiffBase_hydrate_Inr_iff:
  "AccDiffBase_hydrate hyd d b = (Inr b', tr) \<longleftrightarrow>
     (\<exists>ps. list_all2 (\<lambda>(k, v) (k', v'). k' = k \<and> hyd v = Some v') (b_plugins b) ps
        \<and> b' = b\<lparr>b_weapon := Some (weapon d), b_plugins := ps\<rparr>
        \<and> tr = Hydrate TheBase # SetWeapon TheBase # plugin_calls TheBase (b_plugins b))"
proof -
  have "AccDiffBase_hydrate hyd d b = (Inr b', tr) \<longleftrightarrow>
     (\<exists>ps tr0. hydrate_plugins hyd TheBase (b_plugins b) = (Inr ps, tr0)
        \<and> b' = b\<lparr>b_weapon := Some (weapon d), b_plugins := ps\<rparr>
        \<and> tr = Hydrate TheBase # SetWeapon TheBase # tr0)"
    unfolding AccDiffBase_hydrate_def Let_def
    by (cases b) (auto split: prod.splits sum.splits)
  then show ?thesis
    unfolding hydrate_plugins_Inr_iff by blast
qed

lemma AccDiffTarget_hydrate_Inr_iff:
  "AccDiffTarget_hydrate hyd d i t = (Inr t', tr) \<longleftrightarrow>
     (\<exists>ps. list_all2 (\<lambda>(k, v) (k', v'). k' = k \<and> hyd v = Some v') (t_plugins t) ps
        \<and> t' = t\<lparr>t_weapon := Some (weapon d), t_base := Some (base d), t_plugins := ps\<rparr>
        \<and> tr = target_order i t)"
proof -
  have "AccDiffTarget_hydrate hyd d i t = (Inr t', tr) \<longleftrightarrow>
     (\<exists>ps tr0. hydrate_plugins hyd (TheTarget i t) (t_plugins t) = (Inr ps, tr0)
        \<and> t' = t\<lparr>t_weapon := Some (weapon d), t_base := Some (base d), t_plugins := ps\<rparr>
        \<and> tr = Hydrate (TheTarget i t) # SetWeapon (TheTarget i t)
                 # SetBase (TheTarget i t) # tr0)"
    unfolding AccDiffTarget_hydrate_def Let_def
    by (auto split: prod.splits sum.splits)
  then show ?thesis
    unfolding hydrate_plugins_Inr_iff target_order_def Let_def by auto
qed

lemma hydrate_targets_Inr:
  assumes "hydrate_targets hyd d i ts = (Inr ts', tr)"
  shows "tr = concat (map (\<lambda>(i, t). target_order i t) (enumerate i ts))"
    and "list_all2 (\<lambda>t t'. \<exists>ps. list_all2 (\<lambda>(k, v) (k', v'). k' = k \<and> hyd v = Some v') (t_plugins t) ps
            \<and> t' = t\<lparr>t_weapon := Some (weapon d), t_base := Some (base d), t_plugins := ps\<rparr>) ts ts'"
  using assms
proof (induction ts arbitrary: i ts' tr)
  case Nil
  { case 1 then show ?case by simp }
  { case 2 then show ?case by simp }
next
  case (Cons t ts)
  { case 1
    then obtain t1 tr1 ts1 tr2 where
      a: "AccDiffTarget_hydrate hyd d i t = (Inr t1, tr1)"
      and b: "hydrate_targets hyd d (Suc i) ts = (Inr ts1, tr2)"
      and c: "tr = tr1 @ tr2" "ts' = t1 # ts1"
      by (auto split: prod.splits sum.splits)
    from a have "tr1 = target_order i t"
      unfolding AccDiffTarget_hydrate_Inr_iff by blast
    with Cons.IH(1) [OF b] c(1) show ?case by simp }
  { case 2
    then obtain t1 tr1 ts1 tr2 where
      a: "AccDiffTarget_hydrate hyd d i t = (Inr t1, tr1)"
      and b: "hydrate_targets hyd d (Suc i) ts = (Inr ts1, tr2)"
      and c: "tr = tr1 @ tr2" "ts' = t1 # ts1"
      by (auto split: prod.splits sum.splits)
    from a obtain ps where
      "list_all2 (\<lambda>(k, v) (k', v'). k' = k \<and> hyd v = Some v') (t_plugins t) ps"
      "t1 = t\<lparr>t_weapon := Some (weapon d), t_base := Some (base d), t_plugins := ps\<rparr>"
      unfolding AccDiffTarget_hydrate_Inr_iff by blast
    with Cons.IH(2) [OF b] c show ?case by auto }
qed

lemma hydrate_targets_total:
  "(\<forall>t \<in> set ts. \<forall>v \<in> snd ` set (t_plugins t). hyd v \<noteq> None)
   \<Longrightarrow> \<exists>ts' tr. hydrate_targets hyd d i ts = (Inr ts', tr)"
proof (induction ts arbitrary: i)
  case Nil
  then show ?case by simp
next
  case (Cons t ts)
  then obtain ps tr0 where
    "hydrate_plugins hyd (TheTarget i t) (t_plugins t) = (Inr ps, tr0)"
    using hydrate_plugins_total [of "t_plugins t" hyd "TheTarget i t"] by auto
  then obtain t1 tr1 where "AccDiffTarget_hydrate hyd d i t = (Inr t1, tr1)"
    by (auto simp add: AccDiffTarget_hydrate_Inr_iff hydrate_plugins_Inr_iff)
  moreover have "\<forall>t \<in> set ts. \<forall>v \<in> snd ` set (t_plugins t). hyd v \<noteq> None"
    using Cons.prems by simp
  then obtain ts1 tr2 where "hydrate_targets hyd d (Suc i) ts = (Inr ts1, tr2)"
    using Cons.IH [of "Suc i"] by blast
  ultimately show ?case by simp
qed

lemma hydrate_targets_InrI:
  "list_all2 (hydrates_target hyd d) ts ts' \<Longrightarrow> \<exists>tr. hydrate_targets hyd d i ts = (Inr ts', tr)"
proof (induction ts ts' arbitrary: i rule: list_all2_induct)
  case Nil
  then show ?case by simp
next
  case (Cons t ts t' ts')
  from Cons.hyps(1) obtain ps where ps: "hydrates hyd (t_plugins t) ps"
    "t' = t\<lparr>t_weapon := Some (weapon d), t_base := Some (base d), t_plugins := ps\<rparr>"
    by blast
  then have 1: "AccDiffTarget_hydrate hyd d i t = (Inr t', target_order i t)"
    unfolding AccDiffTarget_hydrate_Inr_iff by blast
  from Cons.IH [of "Suc i"] obtain tr2 where "hydrate_targets hyd d (Suc i) ts = (Inr ts', tr2)"
    by blast
  with 1 show ?case by simp
qed

lemma target_order_filter:
  "filter is_hydrate_call (target_order i t) = [Hydrate (TheTarget i t)]"
  "filter is_backref_write (target_order i t) = target_writes i t"
  by (simp_all add: target_order_def target_writes_def Let_def)

lemma targets_order_filter:
  "filter is_hydrate_call (concat (map (\<lambda>(i, t). target_order i t) its)) =
     map (\<lambda>(i, t). Hydrate (TheTarget i t)) its"
  "filter is_backref_write (concat (map (\<lambda>(i, t). target_order i t) its)) =
     concat (map (\<lambda>(i, t). target_writes i t) its)"
  by (induction its; auto simp add: target_order_filter)+

lemma target_writes_index:
  "e \<in> set (concat (map (\<lambda>(i, t). target_writes i t) (enumerate i ts))) \<Longrightarrow>
     \<exists>j t. i \<le> j \<and> (e = SetWeapon (TheTarget j t) \<or> e = SetBase (TheTarget j t))"
proof (induction ts arbitrary: i)
  case Nil
  then show ?case by simp
next
  case (Cons t ts)
  from Cons.prems consider "e \<in> set (target_writes i t)"
    | "e \<in> set (concat (map (\<lambda>(i, t). target_writes i t) (enumerate (Suc i) ts)))"
    by auto
  then show ?case
  proof cases
    case 1
    then show ?thesis by (auto simp add: target_writes_def)
  next
    case 2
    from Cons.IH [OF this] obtain j t' where j: "Suc i \<le> j"
      and e: "e = SetWeapon (TheTarget j t') \<or> e = SetBase (TheTarget j t')"
      by blast
    from j have "i \<le> j" by simp
    with e show ?thesis by blast
  qed
qed

lemma distinct_target_writes:
  "distinct (concat (map (\<lambda>(i, t). target_writes i t) (enumerate i ts)))"
proof (induction ts arbitrary: i)
  case Nil
  then show ?case by simp
next
  case (Cons t ts)
  have "e \<notin> set (target_writes i t)"
    if "e \<in> set (concat (map (\<lambda>(i, t). target_writes i t) (enumerate (Suc i) ts)))" for e
    using target_writes_index [OF that] by (auto simp add: target_writes_def)
  then have "set (target_writes i t)
      \<inter> set (concat (map (\<lambda>(i, t). target_writes i t) (enumerate (Suc i) ts))) = {}"
    by blast
  moreover have "distinct (target_writes i t)" by (simp add: target_writes_def)
  ultimately show ?case using Cons.IH [of "Suc i"] by simp
qed

lemma SetWeapon_TheBase_notin:
  "SetWeapon TheBase \<notin> set (concat (map (\<lambda>(i, t). target_writes i t) (enumerate i ts)))"
  using target_writes_index [of "SetWeapon TheBase" i ts] by auto

subsubsection \<open>The examples, evaluated\<close>

lemma ex_statics_simps:
  "AccDiffWeapon_pluginSchema ex_statics = []"
  "AccDiffBase_pluginSchema ex_statics = [(''example'', ex_codec)]"
  "AccDiffTarget_pluginSchema ex_statics = [(''example'', ex_codec)]"
  "AccDiffData_plugins ex_statics = [ex_plugin]"
  "AccDiffData_targetedPlugins ex_statics = [ex_plugin]"
  by (simp_all add: ex_statics_def registerPlugin_def initial_statics_def ex_plugin_def Let_def
      object_set_name example_keys)

lemma ex_lossy_statics_simps:
  "AccDiffWeapon_pluginSchema ex_lossy_statics = []"
  "AccDiffBase_pluginSchema ex_lossy_statics = [(''lossy'', ex_lossy_codec)]"
  "AccDiffTarget_pluginSchema ex_lossy_statics = []"
  by (simp_all add: ex_lossy_statics_def registerPlugin_def initial_statics_def
      ex_lossy_plugin_def Let_def object_set_name example_keys)

lemmas decode_defs =
  AccDiffData_fromObject_def AccDiffData_codec_validate_def AccDiffData_schemaCodec_validate_def
  AccDiffWeapon_codec_validate_def AccDiffWeapon_schemaCodec_validate_def AccDiffWeapon_new_def
  AccDiffBase_codec_validate_def AccDiffBase_schemaCodec_validate_def AccDiffBase_new_def
  AccDiffTarget_codec_validate_def AccDiffTarget_schemaCodec_validate_def AccDiffTarget_new_def
  type_validate_def coverSchema_def tokens_get_def notifications_error_def under_def
  AccDiffData_new_def AccDiffWeapon_hydrate_def AccDiffBase_hydrate_def AccDiffTarget_hydrate_def
  Let_def object_set_name example_keys

lemmas encode_defs =
  AccDiffData_toObject_def AccDiffData_raw_def AccDiffWeapon_codec_encode_def
  AccDiffWeapon_raw_def AccDiffBase_codec_encode_def AccDiffBase_raw_def
  AccDiffTarget_codec_encode_def AccDiffTarget_raw_def type_encode_def
  object_set_name example_keys

lemmas example_defs =
  ex_statics_simps ex_plugin_def ex_codec_def ex_hydrate_def ex_world_def ex_weapon_def
  ex_base_def ex_target_def ex_data_def ex_obj_def

lemma ex_fromParams_obj:
  "fromParams_obj ex_statics None (Some []) (Some ''Shot'') (Some [''tokA'', ''tokB''])
     (Some (1, 0)) = ex_obj"
  by (simp add: fromParams_obj_def fromParams_target_def fromParams_plugin_def example_defs
      object_set_name example_keys)

lemma ex_fromObject: "AccDiffData_fromObject ex_statics ex_hydrate ex_obj ex_world = (Inr ex_data, ex_world)"
  by (simp add: decode_defs example_defs)

lemma ex_toObject: "AccDiffData_toObject ex_statics ex_data = ex_obj"
  by (simp add: encode_defs example_defs)

subsubsection \<open>Validation of a plugins object\<close>

lemma type_validate_loop_eq:
  "type_validate_loop props u a =
     (concat (map (\<lambda>(k, c). if c_validate c (map_of u k) = None then [[Key k]] else []) props),
      fold (\<lambda>(k, c) a. case c_validate c (map_of u k) of None \<Rightarrow> a | Some v \<Rightarrow> object_set k v a)
        props a)"
  by (induction props arbitrary: a) (auto split: option.splits prod.splits)

lemma type_validate_errors_Nil_iff:
  "concat (map (\<lambda>(k, c). if c_validate c (map_of u k) = None then [[Key k]] else []) props) = []
     \<longleftrightarrow> registered_keys_valid props u"
  by (induction props) (auto simp add: registered_keys_valid_def split: if_splits)

lemma registered_keys_validD:
  "registered_keys_valid props u \<Longrightarrow> (k, c) \<in> set props \<Longrightarrow>
     \<exists>v. c_validate c (map_of u k) = Some v"
  by (fastforce simp add: registered_keys_valid_def list_all_iff)

lemma type_validate_eq:
  "type_validate props u =
     (if registered_keys_valid props u
      then Inr (fold (\<lambda>(k, c). object_set k (the (c_validate c (map_of u k)))) props u)
      else Inl (concat (map (\<lambda>(k, c). if c_validate c (map_of u k) = None then [[Key k]] else [])
                  props)))"
proof -
  define errs where
    "errs = concat (map (\<lambda>(k, c). if c_validate c (map_of u k) = None then [[Key k]] else []) props)"
  have 1: "errs = [] \<longleftrightarrow> registered_keys_valid props u"
    unfolding errs_def by (rule type_validate_errors_Nil_iff)
  have 2: "registered_keys_valid props u \<Longrightarrow>
      fold (\<lambda>(k, c) a. case c_validate c (map_of u k) of None \<Rightarrow> a | Some v \<Rightarrow> object_set k v a) props b
      = fold (\<lambda>(k, c). object_set k (the (c_validate c (map_of u k)))) props b" for b
    by (induction props arbitrary: b) (auto simp add: registered_keys_valid_def)
  have tv: "type_validate props u =
      (case errs of
         [] \<Rightarrow> Inr (fold (\<lambda>(k, c) a. case c_validate c (map_of u k) of None \<Rightarrow> a
                                      | Some v \<Rightarrow> object_set k v a) props u)
       | e # es \<Rightarrow> Inl (e # es))"
    unfolding type_validate_def type_validate_loop_eq errs_def by simp
  show ?thesis
    unfolding tv using 1 2 [of u] by (cases errs) (simp_all add: errs_def [symmetric])
qed

lemma type_validate_Inr_iff:
  "type_validate props u = Inr a \<longleftrightarrow>
     registered_keys_valid props u
     \<and> a = fold (\<lambda>(k, c). object_set k (the (c_validate c (map_of u k)))) props u"
  by (auto simp add: type_validate_eq)



subsubsection \<open>Decoding, case by case\<close>

lemma AccDiffTarget_schemaCodec_validate_passes:
  "(\<exists>v. AccDiffTarget_schemaCodec_validate ps u = Inr v) \<longleftrightarrow> target_passes ps u"
  by (auto simp add: AccDiffTarget_schemaCodec_validate_Inr_iff target_passes_def
      type_validate_Inr_iff)

lemma AccDiffTarget_codec_validate_fails:
  assumes "\<not> target_passes ps u"
  shows "\<exists>errs. AccDiffTarget_codec_validate ps u w = (Inr (Inl errs), w) \<and> errs \<noteq> []"
proof (cases "AccDiffTarget_schemaCodec_validate ps u")
  case (Inl errs)
  moreover from Inl have "errs \<noteq> []"
    using AccDiffTarget_schemaCodec_validate_not_Inl_Nil [of ps u] by auto
  ultimately show ?thesis by (simp add: AccDiffTarget_codec_validate_def)
next
  case (Inr v)
  with assms show ?thesis
    using AccDiffTarget_schemaCodec_validate_passes [of ps u] by blast
qed

lemma AccDiffTarget_codec_validate_throws:
  assumes "target_passes ps u" and "to_target_id u \<notin> set (scene_tokens w)"
  shows "AccDiffTarget_codec_validate ps u w =
           (Inl TokenNotFound,
            notifications_error ''Trying to access tokens from a different scene!'' w)"
proof -
  from assms(1) obtain v where v: "AccDiffTarget_schemaCodec_validate ps u = Inr v"
    using AccDiffTarget_schemaCodec_validate_passes [of ps u] by blast
  then have "to_target_id v = to_target_id u"
    by (auto simp add: AccDiffTarget_schemaCodec_validate_Inr_iff)
  with v assms(2) show ?thesis
    by (simp add: AccDiffTarget_codec_validate_def AccDiffTarget_new_def tokens_get_eq)
qed

lemma AccDiffTarget_codec_validate_succeeds:
  assumes "target_passes ps u" and "to_target_id u \<in> set (scene_tokens w)"
  shows "\<exists>t. AccDiffTarget_codec_validate ps u w = (Inr (Inr t), w)"
  using assms
  by (auto simp add: AccDiffTarget_codec_validate_Inr_Inr_iff target_passes_def
      type_validate_Inr_iff)

lemma array_validate_throws:
  assumes "\<exists>u \<in> set us. target_passes ps u \<and> to_target_id u \<notin> set (scene_tokens w)"
  shows "array_validate ps i us w =
           (Inl TokenNotFound,
            notifications_error ''Trying to access tokens from a different scene!'' w)"
  using assms
proof (induction us arbitrary: i)
  case Nil
  then show ?case by simp
next
  case (Cons u us)
  show ?case
  proof (cases "target_passes ps u")
    case False
    then obtain errs where e: "AccDiffTarget_codec_validate ps u w = (Inr (Inl errs), w)"
      using AccDiffTarget_codec_validate_fails by blast
    from False Cons.prems
    have "\<exists>u \<in> set us. target_passes ps u \<and> to_target_id u \<notin> set (scene_tokens w)"
      by auto
    from Cons.IH [OF this] e show ?thesis by simp
  next
    case True
    show ?thesis
    proof (cases "to_target_id u \<in> set (scene_tokens w)")
      case False
      with True show ?thesis by (simp add: AccDiffTarget_codec_validate_throws)
    next
      case in_scene: True
      with True obtain t where t: "AccDiffTarget_codec_validate ps u w = (Inr (Inr t), w)"
        using AccDiffTarget_codec_validate_succeeds by blast
      from in_scene Cons.prems
      have "\<exists>u \<in> set us. target_passes ps u \<and> to_target_id u \<notin> set (scene_tokens w)"
        by auto
      from Cons.IH [OF this] t show ?thesis by simp
    qed
  qed
qed

lemma array_validate_returns:
  assumes "\<not> (\<exists>u \<in> set us. target_passes ps u \<and> to_target_id u \<notin> set (scene_tokens w))"
  shows "\<exists>errs ts. array_validate ps i us w = (Inr (errs, ts), w)
           \<and> (errs = [] \<longleftrightarrow> (\<forall>u \<in> set us. target_passes ps u))"
  using assms
proof (induction us arbitrary: i)
  case Nil
  then show ?case by simp
next
  case (Cons u us)
  from Cons.prems
  have "\<not> (\<exists>u \<in> set us. target_passes ps u \<and> to_target_id u \<notin> set (scene_tokens w))"
    by auto
  from Cons.IH [OF this, of "Suc i"] obtain errs ts where
    r: "array_validate ps (Suc i) us w = (Inr (errs, ts), w)"
    and e: "errs = [] \<longleftrightarrow> (\<forall>u \<in> set us. target_passes ps u)"
    by blast
  show ?case
  proof (cases "target_passes ps u")
    case False
    then obtain errs0 where "AccDiffTarget_codec_validate ps u w = (Inr (Inl errs0), w)"
      "errs0 \<noteq> []"
      using AccDiffTarget_codec_validate_fails by blast
    with r False show ?thesis by (simp add: under_def)
  next
    case True
    with Cons.prems have "to_target_id u \<in> set (scene_tokens w)" by auto
    with True obtain t where "AccDiffTarget_codec_validate ps u w = (Inr (Inr t), w)"
      using AccDiffTarget_codec_validate_succeeds by blast
    with r e True show ?thesis by simp
  qed
qed

lemma AccDiffWeapon_codec_validate_cases:
  "(\<exists>wp. AccDiffWeapon_codec_validate ps u = Inr wp) \<longleftrightarrow> registered_keys_valid ps (w_plugins u)"
  "AccDiffWeapon_codec_validate ps u \<noteq> Inl []"
proof -
  show "(\<exists>wp. AccDiffWeapon_codec_validate ps u = Inr wp) \<longleftrightarrow>
      registered_keys_valid ps (w_plugins u)"
    by (simp add: AccDiffWeapon_codec_validate_Inr_iff type_validate_Inr_iff)
  show "AccDiffWeapon_codec_validate ps u \<noteq> Inl []"
    by (cases "type_validate ps (w_plugins u)")
       (auto simp add: AccDiffWeapon_codec_validate_def AccDiffWeapon_schemaCodec_validate_def)
qed

lemma AccDiffBase_codec_validate_cases:
  "(\<exists>b. AccDiffBase_codec_validate ps u = Inr b) \<longleftrightarrow>
     coverSchema (bo_cover u) \<and> registered_keys_valid ps (bo_plugins u)"
  "AccDiffBase_codec_validate ps u \<noteq> Inl []"
proof -
  show "(\<exists>b. AccDiffBase_codec_validate ps u = Inr b) \<longleftrightarrow>
     coverSchema (bo_cover u) \<and> registered_keys_valid ps (bo_plugins u)"
    by (simp add: AccDiffBase_codec_validate_Inr_iff type_validate_Inr_iff)
  show "AccDiffBase_codec_validate ps u \<noteq> Inl []"
    by (cases "type_validate ps (bo_plugins u)")
       (auto simp add: AccDiffBase_codec_validate_def AccDiffBase_schemaCodec_validate_def
          Let_def)
qed

lemma fromObject_throws:
  assumes "\<exists>u \<in> set (o_targets obj). target_passes (AccDiffTarget_pluginSchema s) u
             \<and> to_target_id u \<notin> set (scene_tokens w)"
  shows "AccDiffData_fromObject s hyd obj w =
           (Inl TokenNotFound,
            notifications_error ''Trying to access tokens from a different scene!'' w)"
  using array_validate_throws [OF assms, of 0]
  by (simp add: AccDiffData_fromObject_def AccDiffData_codec_validate_def
      AccDiffData_schemaCodec_validate_def Let_def)

lemma fromObject_invalid:
  assumes "\<not> (\<exists>u \<in> set (o_targets obj). target_passes (AccDiffTarget_pluginSchema s) u
             \<and> to_target_id u \<notin> set (scene_tokens w))"
    and "\<not> object_passes s obj"
  shows "\<exists>errs. AccDiffData_fromObject s hyd obj w = (Inl (ValidationError errs), w) \<and> errs \<noteq> []"
proof -
  from array_validate_returns [OF assms(1), of 0] obtain terrs ts where
    r: "array_validate (AccDiffTarget_pluginSchema s) 0 (o_targets obj) w = (Inr (terrs, ts), w)"
    and e: "terrs = [] \<longleftrightarrow> (\<forall>u \<in> set (o_targets obj). target_passes (AccDiffTarget_pluginSchema s) u)"
    by blast
  let ?rw = "AccDiffWeapon_codec_validate (AccDiffWeapon_pluginSchema s) (o_weapon obj)"
  let ?rb = "AccDiffBase_codec_validate (AccDiffBase_pluginSchema s) (o_base obj)"
  from assms(2) e have "(\<exists>es. ?rw = Inl es) \<or> (\<exists>es. ?rb = Inl es) \<or> terrs \<noteq> []"
    using AccDiffWeapon_codec_validate_cases(1) [of "AccDiffWeapon_pluginSchema s" "o_weapon obj"]
      AccDiffBase_codec_validate_cases(1) [of "AccDiffBase_pluginSchema s" "o_base obj"]
    by (cases ?rw; cases ?rb) (auto simp add: object_passes_def list_all_iff)
  then show ?thesis
    using r AccDiffWeapon_codec_validate_cases(2) [of "AccDiffWeapon_pluginSchema s" "o_weapon obj"]
      AccDiffBase_codec_validate_cases(2) [of "AccDiffBase_pluginSchema s" "o_base obj"]
    by (cases ?rw; cases ?rb)
       (auto simp add: AccDiffData_fromObject_def AccDiffData_codec_validate_def
          AccDiffData_schemaCodec_validate_def Let_def)
qed

lemma fromObject_not_TypeError:
  assumes "\<not> object_passes s obj"
  shows "\<exists>e. fst (AccDiffData_fromObject s hyd obj w) = Inl e \<and> e \<noteq> TypeError"
proof (cases "\<exists>u \<in> set (o_targets obj). target_passes (AccDiffTarget_pluginSchema s) u
             \<and> to_target_id u \<notin> set (scene_tokens w)")
  case True
  from fromObject_throws [OF this] show ?thesis by simp
next
  case False
  from fromObject_invalid [OF this assms, of hyd] show ?thesis by auto
qed




subsubsection \<open>Decoding what was encoded\<close>

lemma plugins_roundtrip_iff:
  "plugins_roundtrip hyd props xs \<longleftrightarrow>
     (\<exists>a. type_validate props (type_encode props xs) = Inr a \<and> hydrates hyd a xs)"
  by (simp add: plugins_roundtrip_def split: sum.splits)

lemma fromObject_parts:
  assumes "AccDiffData_fromObject s hyd obj w = (Inr x, w')"
  shows "\<exists>aw ab ts0.
           w' = w
           \<and> type_validate (AccDiffWeapon_pluginSchema s) (w_plugins (o_weapon obj)) = Inr aw
           \<and> hydrates hyd aw (w_plugins (weapon x))
           \<and> weapon x = (o_weapon obj)\<lparr>w_plugins := w_plugins (weapon x)\<rparr>
           \<and> coverSchema (bo_cover (o_base obj))
           \<and> type_validate (AccDiffBase_pluginSchema s) (bo_plugins (o_base obj)) = Inr ab
           \<and> hydrates hyd ab (b_plugins (base x))
           \<and> base x = \<lparr>b_accuracy = bo_accuracy (o_base obj),
                        b_difficulty = bo_difficulty (o_base obj),
                        b_cover = bo_cover (o_base obj), b_plugins = b_plugins (base x),
                        b_weapon = Some (weapon x)\<rparr>
           \<and> list_all2 (decodes_target (AccDiffTarget_pluginSchema s) w) (o_targets obj) ts0
           \<and> list_all2 (hydrates_target hyd x) ts0 (targets x)
           \<and> title x = o_title obj"
proof -
  let ?W = "AccDiffWeapon_pluginSchema s"
  let ?B = "AccDiffBase_pluginSchema s"
  let ?T = "AccDiffTarget_pluginSchema s"
  from assms obtain wp0 b0 ts0 tr where
    1: "AccDiffWeapon_codec_validate ?W (o_weapon obj) = Inr wp0"
    and 2: "AccDiffBase_codec_validate ?B (o_base obj) = Inr b0"
    and 3: "array_validate ?T 0 (o_targets obj) w = (Inr ([], ts0), w')"
    and 4: "AccDiffData_new hyd \<lparr>title = o_title obj, weapon = wp0, base = b0, targets = ts0\<rparr>
            = (Inr x, tr)"
    unfolding fromObject_Inr_iff by blast
  from 1 obtain aw where aw: "type_validate ?W (w_plugins (o_weapon obj)) = Inr aw"
    and wp0: "wp0 = (o_weapon obj)\<lparr>w_plugins := aw\<rparr>"
    unfolding AccDiffWeapon_codec_validate_Inr_iff by blast
  from 2 obtain ab where cov: "coverSchema (bo_cover (o_base obj))"
    and ab: "type_validate ?B (bo_plugins (o_base obj)) = Inr ab"
    and b0: "b0 = \<lparr>b_accuracy = bo_accuracy (o_base obj), b_difficulty = bo_difficulty (o_base obj),
                  b_cover = bo_cover (o_base obj), b_plugins = ab, b_weapon = None\<rparr>"
    unfolding AccDiffBase_codec_validate_Inr_iff by blast
  from 3 have w': "w' = w" and dec: "list_all2 (decodes_target ?T w) (o_targets obj) ts0"
    unfolding array_validate_Inr_iff by simp_all
  from 4 obtain wps tr1 bps tr2 ts tr3 where
    hw: "hydrate_plugins hyd TheWeapon aw = (Inr wps, tr1)"
    and hb: "hydrate_plugins hyd TheBase ab = (Inr bps, tr2)"
    and ht: "hydrate_targets hyd
             \<lparr>title = o_title obj, weapon = wp0\<lparr>w_plugins := wps\<rparr>,
               base = b0\<lparr>b_weapon := Some (wp0\<lparr>w_plugins := wps\<rparr>), b_plugins := bps\<rparr>,
               targets = ts0\<rparr> 0 ts0 = (Inr ts, tr3)"
    and xeq: "x = \<lparr>title = o_title obj, weapon = wp0\<lparr>w_plugins := wps\<rparr>,
               base = b0\<lparr>b_weapon := Some (wp0\<lparr>w_plugins := wps\<rparr>), b_plugins := bps\<rparr>,
               targets = ts\<rparr>"
    unfolding AccDiffData_new_Inr_iff by (auto simp add: wp0 b0)
  from hw have Rw: "hydrates hyd aw (w_plugins (weapon x))"
    by (simp add: hydrate_plugins_Inr_iff xeq)
  from hb have Rb: "hydrates hyd ab (b_plugins (base x))"
    by (simp add: hydrate_plugins_Inr_iff xeq)
  from hydrate_targets_Inr(2) [OF ht]
  have Rt: "list_all2 (hydrates_target hyd x) ts0 (targets x)"
    by (simp add: xeq)
  have wx: "weapon x = (o_weapon obj)\<lparr>w_plugins := w_plugins (weapon x)\<rparr>"
    by (simp add: xeq wp0)
  have bx: "base x = \<lparr>b_accuracy = bo_accuracy (o_base obj),
                        b_difficulty = bo_difficulty (o_base obj),
                        b_cover = bo_cover (o_base obj), b_plugins = b_plugins (base x),
                        b_weapon = Some (weapon x)\<rparr>"
    by (simp add: xeq b0)
  have tx: "title x = o_title obj" by (simp add: xeq)
  from w' aw Rw wx cov ab Rb bx dec Rt tx show ?thesis by blast
qed

lemma fromObject_partsI:
  assumes "type_validate (AccDiffWeapon_pluginSchema s) (w_plugins (o_weapon obj)) = Inr aw"
    and "hydrates hyd aw wps"
    and "coverSchema (bo_cover (o_base obj))"
    and "type_validate (AccDiffBase_pluginSchema s) (bo_plugins (o_base obj)) = Inr ab"
    and "hydrates hyd ab bps"
    and "list_all2 (decodes_target (AccDiffTarget_pluginSchema s) w) (o_targets obj) ts0"
    and "list_all2 (hydrates_target hyd x) ts0 ts"
    and "x = \<lparr>title = o_title obj, weapon = (o_weapon obj)\<lparr>w_plugins := wps\<rparr>,
              base = \<lparr>b_accuracy = bo_accuracy (o_base obj),
                      b_difficulty = bo_difficulty (o_base obj),
                      b_cover = bo_cover (o_base obj), b_plugins = bps,
                      b_weapon = Some ((o_weapon obj)\<lparr>w_plugins := wps\<rparr>)\<rparr>,
              targets = ts\<rparr>"
  shows "AccDiffData_fromObject s hyd obj w = (Inr x, w)"
proof -
  let ?W = "AccDiffWeapon_pluginSchema s"
  let ?B = "AccDiffBase_pluginSchema s"
  let ?T = "AccDiffTarget_pluginSchema s"
  let ?wp0 = "(o_weapon obj)\<lparr>w_plugins := aw\<rparr>"
  let ?b0 = "\<lparr>b_accuracy = bo_accuracy (o_base obj), b_difficulty = bo_difficulty (o_base obj),
              b_cover = bo_cover (o_base obj), b_plugins = ab, b_weapon = None\<rparr>"
  have o1: "AccDiffWeapon_codec_validate ?W (o_weapon obj) = Inr ?wp0"
    using assms(1) by (simp add: AccDiffWeapon_codec_validate_Inr_iff)
  have o2: "AccDiffBase_codec_validate ?B (o_base obj) = Inr ?b0"
    using assms(3,4) by (simp add: AccDiffBase_codec_validate_Inr_iff)
  have o3: "array_validate ?T 0 (o_targets obj) w = (Inr ([], ts0), w)"
    using assms(6) by (simp add: array_validate_Inr_iff)
  let ?v = "\<lparr>title = o_title obj, weapon = ?wp0, base = ?b0, targets = ts0\<rparr>"
  have h1: "hydrate_plugins hyd TheWeapon (w_plugins (weapon ?v))
      = (Inr wps, plugin_calls TheWeapon aw)"
    using hydrate_plugins_InrI [OF assms(2)] by simp
  have h2: "hydrate_plugins hyd TheBase (b_plugins (base ?v))
      = (Inr bps, plugin_calls TheBase ab)"
    using hydrate_plugins_InrI [OF assms(5)] by simp
  let ?d = "?v\<lparr>weapon := (weapon ?v)\<lparr>w_plugins := wps\<rparr>,
                base := (base ?v)\<lparr>b_weapon := Some ((weapon ?v)\<lparr>w_plugins := wps\<rparr>),
                                 b_plugins := bps\<rparr>\<rparr>"
  have wd: "weapon ?d = weapon x" and bd: "base ?d = base x"
    by (simp_all add: assms(8))
  from assms(7) have "list_all2 (hydrates_target hyd ?d) ts0 ts"
    unfolding wd bd .
  from hydrate_targets_InrI [OF this, of 0] obtain tr3 where
    h3: "hydrate_targets hyd ?d 0 (targets ?v) = (Inr ts, tr3)" by auto
  have xd: "x = ?v\<lparr>weapon := (weapon ?v)\<lparr>w_plugins := wps\<rparr>,
                base := (base ?v)\<lparr>b_weapon := Some ((weapon ?v)\<lparr>w_plugins := wps\<rparr>),
                                 b_plugins := bps\<rparr>,
                targets := ts\<rparr>"
    by (simp add: assms(8))
  have "\<exists>tr. AccDiffData_new hyd ?v = (Inr x, tr)"
    unfolding AccDiffData_new_Inr_iff using h1 h2 h3 xd by blast
  with o1 o2 o3 show ?thesis
    unfolding fromObject_Inr_iff by blast
qed

lemma decoded_target_fields:
  assumes "list_all2 (decodes_target props w) us ts0"
    and "list_all2 (hydrates_target hyd d) ts0 ts"
  shows "map target_fields ts =
           map (\<lambda>u. (to_target_id u, to_accuracy u, to_difficulty u, to_cover u,
                      to_consumeLockOn u)) us"
  using assms
proof (induction us ts0 arbitrary: ts rule: list_all2_induct)
  case Nil
  then show ?case by simp
next
  case (Cons u us t0 ts0)
  from Cons.prems obtain t ts' where ts: "ts = t # ts'" and t: "hydrates_target hyd d t0 t"
    and rest: "list_all2 (hydrates_target hyd d) ts0 ts'"
    by (auto simp add: list_all2_Cons1)
  from Cons.hyps(1) t have "target_fields t =
      (to_target_id u, to_accuracy u, to_difficulty u, to_cover u, to_consumeLockOn u)"
    by (auto simp add: target_fields_def)
  with Cons.IH [OF rest] ts show ?case by simp
qed

lemma decoded_targets_wellformed:
  assumes "list_all2 (decodes_target props w) us ts0"
    and "list_all2 (hydrates_target hyd d) ts0 ts"
  shows "\<forall>t \<in> set ts. coverSchema (t_cover t) \<and> t_target t \<in> set (scene_tokens w)
           \<and> t_weapon t = Some (weapon d) \<and> t_base t = Some (base d)"
  using assms
proof (induction us ts0 arbitrary: ts rule: list_all2_induct)
  case Nil
  then show ?case by simp
next
  case (Cons u us t0 ts0)
  from Cons.prems obtain t ts' where ts: "ts = t # ts'" and t: "hydrates_target hyd d t0 t"
    and rest: "list_all2 (hydrates_target hyd d) ts0 ts'"
    by (auto simp add: list_all2_Cons1)
  from Cons.hyps(1) t have "coverSchema (t_cover t) \<and> t_target t \<in> set (scene_tokens w)
           \<and> t_weapon t = Some (weapon d) \<and> t_base t = Some (base d)"
    by auto
  with Cons.IH [OF rest] ts show ?case by simp
qed

lemma encoded_targets_decode:
  assumes "\<forall>t \<in> set ts. coverSchema (t_cover t) \<and> t_target t \<in> set (scene_tokens w)
           \<and> t_weapon t = Some (weapon d) \<and> t_base t = Some (base d)
           \<and> plugins_roundtrip hyd props (t_plugins t)"
  shows "\<exists>ts2. list_all2 (decodes_target props w) (map (AccDiffTarget_codec_encode props) ts) ts2
           \<and> list_all2 (hydrates_target hyd d) ts2 ts"
  using assms
proof (induction ts)
  case Nil
  then show ?case by simp
next
  case (Cons t ts)
  from Cons.prems have cov: "coverSchema (t_cover t)" and tok: "t_target t \<in> set (scene_tokens w)"
    and tw: "t_weapon t = Some (weapon d)" and tb: "t_base t = Some (base d)"
    and rt: "plugins_roundtrip hyd props (t_plugins t)"
    by simp_all
  from rt obtain a2 where
    a2: "type_validate props (type_encode props (t_plugins t)) = Inr a2"
      "hydrates hyd a2 (t_plugins t)"
    unfolding plugins_roundtrip_iff by blast
  let ?t2 = "\<lparr>t_target = t_target t, t_accuracy = t_accuracy t,
                 t_difficulty = t_difficulty t, t_cover = t_cover t,
                 t_consumeLockOn = t_consumeLockOn t, t_plugins = a2,
                 t_weapon = None, t_base = None\<rparr>"
  have 1: "decodes_target props w (AccDiffTarget_codec_encode props t) ?t2"
    using cov tok a2(1)
    by (simp add: AccDiffTarget_codec_encode_def AccDiffTarget_raw_def Let_def)
  have "t = ?t2\<lparr>t_weapon := Some (weapon d), t_base := Some (base d), t_plugins := t_plugins t\<rparr>"
    using tw tb by (cases t) simp
  with a2(2) have 2: "hydrates_target hyd d ?t2 t"
    by (intro exI [of _ "t_plugins t"]) simp
  from Cons.IH Cons.prems obtain ts2 where
    "list_all2 (decodes_target props w) (map (AccDiffTarget_codec_encode props) ts) ts2"
    "list_all2 (hydrates_target hyd d) ts2 ts" by auto
  with 1 2 have
    "list_all2 (decodes_target props w) (map (AccDiffTarget_codec_encode props) (t # ts)) (?t2 # ts2)
     \<and> list_all2 (hydrates_target hyd d) (?t2 # ts2) (t # ts)"
    by simp
  then show ?case by blast
qed

lemma decoded_targets_roundtrip:
  assumes "list_all2 (decodes_target props w) (map (AccDiffTarget_codec_encode props) ts) ts0"
    and "list_all2 (hydrates_target hyd d) ts0 ts"
  shows "\<forall>t \<in> set ts. plugins_roundtrip hyd props (t_plugins t)"
  using assms
proof (induction ts arbitrary: ts0)
  case Nil
  then show ?case by simp
next
  case (Cons t ts)
  from Cons.prems(1) obtain t0 ts0' where ts0: "ts0 = t0 # ts0'"
    and d0: "decodes_target props w (AccDiffTarget_codec_encode props t) t0"
    and drest: "list_all2 (decodes_target props w) (map (AccDiffTarget_codec_encode props) ts) ts0'"
    by (auto simp add: list_all2_Cons1)
  from Cons.prems(2) ts0 have h0: "hydrates_target hyd d t0 t"
    and hrest: "list_all2 (hydrates_target hyd d) ts0' ts"
    by simp_all
  from d0 obtain a where a: "type_validate props (type_encode props (t_plugins t)) = Inr a"
    and t0: "t_plugins t0 = a"
    by (auto simp add: AccDiffTarget_codec_encode_def AccDiffTarget_raw_def Let_def)
  from h0 t0 have "hydrates hyd a (t_plugins t)" by auto
  with a have "plugins_roundtrip hyd props (t_plugins t)"
    unfolding plugins_roundtrip_iff by blast
  with Cons.IH [OF drest hrest] show ?case by simp
qed

lemma toObject_parts:
  "o_title (AccDiffData_toObject s x) = title x"
  "o_weapon (AccDiffData_toObject s x) =
     (weapon x)\<lparr>w_plugins := type_encode (AccDiffWeapon_pluginSchema s) (w_plugins (weapon x))\<rparr>"
  "o_base (AccDiffData_toObject s x) =
     \<lparr>bo_accuracy = b_accuracy (base x), bo_difficulty = b_difficulty (base x),
      bo_cover = b_cover (base x),
      bo_plugins = type_encode (AccDiffBase_pluginSchema s) (b_plugins (base x))\<rparr>"
  "o_targets (AccDiffData_toObject s x) =
     map (AccDiffTarget_codec_encode (AccDiffTarget_pluginSchema s)) (targets x)"
  by (cases "weapon x";
      simp add: AccDiffData_toObject_def AccDiffData_raw_def AccDiffWeapon_codec_encode_def
        AccDiffWeapon_raw_def AccDiffBase_codec_encode_def AccDiffBase_raw_def Let_def)+

lemma fromObject_roundtrip_if:
  assumes x: "AccDiffData_fromObject s hyd obj w = (Inr x, w')"
    and rw: "plugins_roundtrip hyd (AccDiffWeapon_pluginSchema s) (w_plugins (weapon x))"
    and rb: "plugins_roundtrip hyd (AccDiffBase_pluginSchema s) (b_plugins (base x))"
    and rt: "\<forall>t \<in> set (targets x).
               plugins_roundtrip hyd (AccDiffTarget_pluginSchema s) (t_plugins t)"
  shows "AccDiffData_fromObject s hyd (AccDiffData_toObject s x) w' = (Inr x, w')"
proof -
  let ?W = "AccDiffWeapon_pluginSchema s"
  let ?B = "AccDiffBase_pluginSchema s"
  let ?T = "AccDiffTarget_pluginSchema s"
  let ?obj = "AccDiffData_toObject s x"
  from fromObject_parts [OF x] obtain ts0 where w': "w' = w"
    and cov: "coverSchema (bo_cover (o_base obj))"
    and bx: "base x = \<lparr>b_accuracy = bo_accuracy (o_base obj),
                        b_difficulty = bo_difficulty (o_base obj),
                        b_cover = bo_cover (o_base obj), b_plugins = b_plugins (base x),
                        b_weapon = Some (weapon x)\<rparr>"
    and dec: "list_all2 (decodes_target ?T w) (o_targets obj) ts0"
    and hy: "list_all2 (hydrates_target hyd x) ts0 (targets x)"
    by blast
  from bx have bcov: "b_cover (base x) = bo_cover (o_base obj)"
    and bw: "b_weapon (base x) = Some (weapon x)"
    by (metis AccDiffBase.select_convs(3), metis AccDiffBase.select_convs(5))
  from rw obtain aw where aw: "type_validate ?W (type_encode ?W (w_plugins (weapon x))) = Inr aw"
    "hydrates hyd aw (w_plugins (weapon x))"
    unfolding plugins_roundtrip_iff by blast
  from rb obtain ab where ab: "type_validate ?B (type_encode ?B (b_plugins (base x))) = Inr ab"
    "hydrates hyd ab (b_plugins (base x))"
    unfolding plugins_roundtrip_iff by blast
  from decoded_targets_wellformed [OF dec hy] rt
  have "\<forall>t \<in> set (targets x). coverSchema (t_cover t) \<and> t_target t \<in> set (scene_tokens w)
           \<and> t_weapon t = Some (weapon x) \<and> t_base t = Some (base x)
           \<and> plugins_roundtrip hyd ?T (t_plugins t)"
    by blast
  from encoded_targets_decode [OF this] obtain ts2 where
    ts2: "list_all2 (decodes_target ?T w) (map (AccDiffTarget_codec_encode ?T) (targets x)) ts2"
      "list_all2 (hydrates_target hyd x) ts2 (targets x)" by blast
  have "AccDiffData_fromObject s hyd ?obj w = (Inr x, w)"
  proof (rule fromObject_partsI)
    show "type_validate ?W (w_plugins (o_weapon ?obj)) = Inr aw"
      using aw(1) by (simp add: toObject_parts)
    show "hydrates hyd aw (w_plugins (weapon x))" by (rule aw(2))
    show "coverSchema (bo_cover (o_base ?obj))"
      using cov bcov by (simp add: toObject_parts)
    show "type_validate ?B (bo_plugins (o_base ?obj)) = Inr ab"
      using ab(1) by (simp add: toObject_parts)
    show "hydrates hyd ab (b_plugins (base x))" by (rule ab(2))
    show "list_all2 (decodes_target ?T w) (o_targets ?obj) ts2"
      using ts2(1) by (simp add: toObject_parts)
    show "list_all2 (hydrates_target hyd x) ts2 (targets x)" by (rule ts2(2))
    show "x = \<lparr>title = o_title ?obj,
              weapon = (o_weapon ?obj)\<lparr>w_plugins := w_plugins (weapon x)\<rparr>,
              base = \<lparr>b_accuracy = bo_accuracy (o_base ?obj),
                      b_difficulty = bo_difficulty (o_base ?obj),
                      b_cover = bo_cover (o_base ?obj), b_plugins = b_plugins (base x),
                      b_weapon = Some ((o_weapon ?obj)\<lparr>w_plugins := w_plugins (weapon x)\<rparr>)\<rparr>,
              targets = targets x\<rparr>"
      using bw by (cases x; cases "base x") (simp add: toObject_parts)
  qed
  then show ?thesis by (simp add: w')
qed

lemma fromObject_roundtrip_only_if:
  assumes "AccDiffData_fromObject s hyd (AccDiffData_toObject s x) w = (Inr x, w')"
  shows "plugins_roundtrip hyd (AccDiffWeapon_pluginSchema s) (w_plugins (weapon x))"
    and "plugins_roundtrip hyd (AccDiffBase_pluginSchema s) (b_plugins (base x))"
    and "\<forall>t \<in> set (targets x).
           plugins_roundtrip hyd (AccDiffTarget_pluginSchema s) (t_plugins t)"
proof -
  let ?T = "AccDiffTarget_pluginSchema s"
  from fromObject_parts [OF assms] obtain aw ab ts0 where
    aw: "type_validate (AccDiffWeapon_pluginSchema s)
           (w_plugins (o_weapon (AccDiffData_toObject s x))) = Inr aw"
      "hydrates hyd aw (w_plugins (weapon x))"
    and ab: "type_validate (AccDiffBase_pluginSchema s)
           (bo_plugins (o_base (AccDiffData_toObject s x))) = Inr ab"
      "hydrates hyd ab (b_plugins (base x))"
    and dec: "list_all2 (decodes_target ?T w) (o_targets (AccDiffData_toObject s x)) ts0"
    and hy: "list_all2 (hydrates_target hyd x) ts0 (targets x)"
    by blast
  from aw show "plugins_roundtrip hyd (AccDiffWeapon_pluginSchema s) (w_plugins (weapon x))"
    unfolding plugins_roundtrip_iff by (auto simp add: toObject_parts)
  from ab show "plugins_roundtrip hyd (AccDiffBase_pluginSchema s) (b_plugins (base x))"
    unfolding plugins_roundtrip_iff by (auto simp add: toObject_parts)
  from dec have "list_all2 (decodes_target ?T w)
      (map (AccDiffTarget_codec_encode ?T) (targets x)) ts0"
    by (simp add: toObject_parts)
  from decoded_targets_roundtrip [OF this hy]
  show "\<forall>t \<in> set (targets x). plugins_roundtrip hyd ?T (t_plugins t)" .
qed

lemma fromObject_toObject_fields:
  assumes "AccDiffData_fromObject s hyd (AccDiffData_toObject s x) w = (Inr y, w')"
  shows "w' = w \<and> title y = title x \<and> weapon_flags (weapon y) = weapon_flags (weapon x)
         \<and> base_numbers (base y) = base_numbers (base x)
         \<and> map target_fields (targets y) = map target_fields (targets x)"
proof -
  let ?T = "AccDiffTarget_pluginSchema s"
  let ?obj = "AccDiffData_toObject s x"
  from fromObject_parts [OF assms] obtain ts0 where w': "w' = w"
    and wy: "weapon y = (o_weapon ?obj)\<lparr>w_plugins := w_plugins (weapon y)\<rparr>"
    and by': "base y = \<lparr>b_accuracy = bo_accuracy (o_base ?obj),
                        b_difficulty = bo_difficulty (o_base ?obj),
                        b_cover = bo_cover (o_base ?obj), b_plugins = b_plugins (base y),
                        b_weapon = Some (weapon y)\<rparr>"
    and dec: "list_all2 (decodes_target ?T w) (o_targets ?obj) ts0"
    and hy: "list_all2 (hydrates_target hyd y) ts0 (targets y)"
    and ty: "title y = o_title ?obj"
    by blast
  have 1: "weapon_flags (weapon y) = weapon_flags (weapon x)"
    by (subst wy) (simp add: weapon_flags_def toObject_parts)
  have 2: "base_numbers (base y) = base_numbers (base x)"
    by (subst by') (simp add: base_numbers_def toObject_parts)
  have 3: "map target_fields (targets y) = map target_fields (targets x)"
    using decoded_target_fields [OF dec hy]
    by (simp add: toObject_parts target_fields_def AccDiffTarget_codec_encode_def
        AccDiffTarget_raw_def Let_def comp_def)
  from w' ty 1 2 3 show ?thesis by (simp add: toObject_parts)
qed

subsubsection \<open>A plugins object, entry by entry\<close>

lemma type_encode_present:
  assumes "fst ` set props \<subseteq> fst ` set a"
  shows "type_encode props a =
     fold (\<lambda>(k, c). object_set k (c_encode c (the (map_of a k)))) props a"
proof -
  have "type_encode_loop props a s =
      fold (\<lambda>(k, c). object_set k (c_encode c (the (map_of a k)))) props s" for s
    using assms
  proof (induction props arbitrary: s)
    case Nil
    then show ?case by simp
  next
    case (Cons p props)
    obtain k c where p: "p = (k, c)" by (cases p)
    with Cons.prems have "k \<in> fst ` set a" by auto
    then obtain v where "map_of a k = Some v"
      by (metis domD dom_map_of_conv_image_fst)
    with Cons p show ?case by simp
  qed
  then show ?thesis by (simp add: type_encode_def)
qed

lemma fst_encode_entry [simp]: "fst (encode_entry props e) = fst e"
  by (simp add: encode_entry_def)

lemma type_encode_entries:
  assumes dp: "distinct (map fst props)" and dx: "distinct (map fst xs)"
    and sub: "fst ` set props \<subseteq> fst ` set xs"
  shows "type_encode props xs = map (encode_entry props) xs"
proof -
  have "type_encode props xs =
      map (\<lambda>e. case map_of props (fst e) of None \<Rightarrow> e
                | Some c \<Rightarrow> (fst e, c_encode c (the (map_of xs (fst e))))) xs"
    unfolding type_encode_present [OF sub] using dp dx sub by (rule fold_object_set_map)
  also have "\<dots> = map (encode_entry props) xs"
  proof (rule map_cong [OF refl])
    fix e assume "e \<in> set xs"
    with dx have "map_of xs (fst e) = Some (snd e)" by (cases e) simp
    then show "(case map_of props (fst e) of None \<Rightarrow> e
                | Some c \<Rightarrow> (fst e, c_encode c (the (map_of xs (fst e))))) = encode_entry props e"
      by (cases e) (simp add: encode_entry_def split: option.splits)
  qed
  finally show ?thesis .
qed

lemma plugins_roundtrip_entries:
  assumes dp: "distinct (map fst props)" and dx: "distinct (map fst xs)"
    and sub: "fst ` set props \<subseteq> fst ` set xs"
  shows "plugins_roundtrip hyd props xs \<longleftrightarrow> list_all (entry_roundtrip hyd props) xs"
proof -
  define e where "e = map (encode_entry props) xs"
  have enc: "type_encode props xs = e"
    unfolding e_def using dp dx sub by (rule type_encode_entries)
  have keys_e: "map fst e = map fst xs" by (simp add: e_def comp_def)
  then have de: "distinct (map fst e)" using dx by simp
  have sub_e: "fst ` set props \<subseteq> fst ` set e"
    using sub keys_e by (metis list.set_map)
  have at: "map_of e (fst x) = Some (snd (encode_entry props x))" if "x \<in> set xs" for x
  proof -
    from that have "encode_entry props x \<in> set e" by (simp add: e_def)
    with de have "map_of e (fst (encode_entry props x)) = Some (snd (encode_entry props x))"
      by (cases "encode_entry props x") simp
    then show ?thesis by simp
  qed
  have at_e: "map_of e (fst y) = Some (snd y)" if "y \<in> set e" for y
  proof -
    obtain k v where "y = (k, v)" by (cases y)
    with that de show ?thesis by simp
  qed
  have valid: "registered_keys_valid props e \<longleftrightarrow>
      (\<forall>x \<in> set xs. \<forall>c. map_of props (fst x) = Some c \<longrightarrow>
         c_validate c (Some (c_encode c (snd x))) \<noteq> None)"
  proof
    assume v: "registered_keys_valid props e"
    show "\<forall>x \<in> set xs. \<forall>c. map_of props (fst x) = Some c \<longrightarrow>
         c_validate c (Some (c_encode c (snd x))) \<noteq> None"
    proof (intro ballI allI impI)
      fix x c assume x: "x \<in> set xs" and c: "map_of props (fst x) = Some c"
      from c have "(fst x, c) \<in> set props" by (rule map_of_SomeD)
      from registered_keys_validD [OF v this] at [OF x] c
      show "c_validate c (Some (c_encode c (snd x))) \<noteq> None"
        by (auto simp add: encode_entry_def)
    qed
  next
    assume r: "\<forall>x \<in> set xs. \<forall>c. map_of props (fst x) = Some c \<longrightarrow>
         c_validate c (Some (c_encode c (snd x))) \<noteq> None"
    have "c_validate c (map_of e k) \<noteq> None" if kc: "(k, c) \<in> set props" for k c
    proof -
      from kc sub obtain x where x: "x \<in> set xs" "fst x = k" by force
      from kc dp have "map_of props k = Some c" by simp
      with r x at [OF x(1)] show ?thesis by (auto simp add: encode_entry_def)
    qed
    then show "registered_keys_valid props e"
      by (auto simp add: registered_keys_valid_def list_all_iff)
  qed
  define dec where
    "dec = (\<lambda>y :: string \<times> 'a. case map_of props (fst y) of None \<Rightarrow> y
              | Some c \<Rightarrow> (fst y, the (c_validate c (Some (snd y)))))"
  have a_eq: "fold (\<lambda>(k, c). object_set k (the (c_validate c (map_of e k)))) props e
      = map dec e"
  proof -
    have "fold (\<lambda>(k, c). object_set k (the (c_validate c (map_of e k)))) props e
        = map (\<lambda>y. case map_of props (fst y) of None \<Rightarrow> y
                    | Some c \<Rightarrow> (fst y, the (c_validate c (map_of e (fst y))))) e"
      using dp de sub_e by (rule fold_object_set_map)
    also have "\<dots> = map dec e"
      by (rule map_cong [OF refl]) (simp add: dec_def at_e split: option.splits)
    finally show ?thesis .
  qed
  have hy: "hydrates hyd (map dec e) xs \<longleftrightarrow>
      list_all (\<lambda>x. hyd (snd (dec (encode_entry props x))) = Some (snd x)) xs"
  proof -
    have "fst (dec y) = fst y" for y by (simp add: dec_def split: option.splits)
    then have "hydrates hyd (map dec e) xs \<longleftrightarrow>
        list_all2 (\<lambda>x x'. fst x' = fst x \<and> hyd (snd (dec (encode_entry props x))) = Some (snd x'))
          xs xs"
      by (simp add: e_def list_all2_map1 case_prod_beta)
    also have "\<dots> \<longleftrightarrow> list_all (\<lambda>x. hyd (snd (dec (encode_entry props x))) = Some (snd x)) xs"
      by (simp add: list_all2_same list_all_iff)
    finally show ?thesis .
  qed
  have "plugins_roundtrip hyd props xs \<longleftrightarrow>
      registered_keys_valid props e \<and> hydrates hyd (map dec e) xs"
    by (auto simp add: plugins_roundtrip_iff enc type_validate_Inr_iff a_eq)
  also have "\<dots> \<longleftrightarrow> list_all (entry_roundtrip hyd props) xs"
  proof -
    have pt: "(\<forall>c. map_of props (fst x) = Some c \<longrightarrow>
                 c_validate c (Some (c_encode c (snd x))) \<noteq> None)
              \<and> hyd (snd (dec (encode_entry props x))) = Some (snd x)
              \<longleftrightarrow> entry_roundtrip hyd props x" for x
    proof (cases "map_of props (fst x)")
      case None
      then show ?thesis by (simp add: entry_roundtrip_def dec_def encode_entry_def)
    next
      case (Some c)
      then show ?thesis
        by (cases "c_validate c (Some (c_encode c (snd x)))")
           (simp_all add: entry_roundtrip_def dec_def encode_entry_def)
    qed
    show ?thesis
      unfolding valid hy list_all_iff using pt by blast
  qed
  finally show ?thesis .
qed

lemma type_validate_keys:
  assumes "type_validate props u = Inr a" and "distinct (map fst u)"
  shows "distinct (map fst a)" and "fst ` set props \<subseteq> fst ` set a"
  using assms
  by (simp_all add: type_validate_Inr_iff distinct_fold_object_set keys_fold_object_set)

lemma hydrates_keys: "hydrates hyd a xs \<Longrightarrow> map fst xs = map fst a"
  by (induction a xs rule: list_all2_induct) auto

lemma validated_hydrated_keys:
  assumes "type_validate props u = Inr a" and "distinct (map fst u)" and "hydrates hyd a xs"
  shows "distinct (map fst xs) \<and> fst ` set props \<subseteq> fst ` set xs"
proof -
  from hydrates_keys [OF assms(3)] have k: "map fst xs = map fst a" .
  then have "fst ` set xs = fst ` set a" by (metis list.set_map)
  with type_validate_keys [OF assms(1,2)] k show ?thesis by simp
qed

lemma registerPlugin_distinct:
  assumes "distinct (map fst (AccDiffWeapon_pluginSchema s))"
    and "distinct (map fst (AccDiffBase_pluginSchema s))"
    and "distinct (map fst (AccDiffTarget_pluginSchema s))"
  shows "distinct (map fst (AccDiffWeapon_pluginSchema (registerPlugin p s)))
    \<and> distinct (map fst (AccDiffBase_pluginSchema (registerPlugin p s)))
    \<and> distinct (map fst (AccDiffTarget_pluginSchema (registerPlugin p s)))"
  using assms by (simp add: registerPlugin_def Let_def distinct_object_set)

lemma registered_distinct:
  assumes "distinct (map fst (AccDiffWeapon_pluginSchema s0))"
    and "distinct (map fst (AccDiffBase_pluginSchema s0))"
    and "distinct (map fst (AccDiffTarget_pluginSchema s0))"
  shows "distinct (map fst (AccDiffWeapon_pluginSchema (foldl (\<lambda>s p. registerPlugin p s) s0 ps)))
    \<and> distinct (map fst (AccDiffBase_pluginSchema (foldl (\<lambda>s p. registerPlugin p s) s0 ps)))
    \<and> distinct (map fst (AccDiffTarget_pluginSchema (foldl (\<lambda>s p. registerPlugin p s) s0 ps)))"
  using assms
proof (induction ps arbitrary: s0)
  case Nil
  then show ?case by simp
next
  case (Cons p ps)
  from registerPlugin_distinct [OF Cons.prems, of p] show ?case
    unfolding foldl_Cons by (intro Cons.IH) simp_all
qed

lemma decoded_targets_keys:
  assumes "list_all2 (decodes_target props w) us ts0"
    and "list_all2 (hydrates_target hyd d) ts0 ts"
    and "\<forall>u \<in> set us. distinct (map fst (to_plugins u))"
  shows "\<forall>t \<in> set ts. distinct (map fst (t_plugins t))
           \<and> fst ` set props \<subseteq> fst ` set (t_plugins t)"
  using assms
proof (induction us ts0 arbitrary: ts rule: list_all2_induct)
  case Nil
  then show ?case by simp
next
  case (Cons u us t0 ts0)
  from Cons.prems(1) obtain t ts' where ts: "ts = t # ts'" and t: "hydrates_target hyd d t0 t"
    and rest: "list_all2 (hydrates_target hyd d) ts0 ts'"
    by (auto simp add: list_all2_Cons1)
  from Cons.hyps(1) obtain a where a: "type_validate props (to_plugins u) = Inr a"
    and t0: "t_plugins t0 = a" by auto
  from t t0 have h: "hydrates hyd a (t_plugins t)" by auto
  from Cons.prems(2) have du: "distinct (map fst (to_plugins u))" by simp
  from validated_hydrated_keys [OF a du h]
  have "distinct (map fst (t_plugins t)) \<and> fst ` set props \<subseteq> fst ` set (t_plugins t)" .
  moreover from Cons.prems(2) have "\<forall>u \<in> set us. distinct (map fst (to_plugins u))" by simp
  from Cons.IH [OF rest this]
  have "\<forall>t \<in> set ts'. distinct (map fst (t_plugins t))
           \<and> fst ` set props \<subseteq> fst ` set (t_plugins t)" .
  ultimately show ?case using ts by simp
qed

lemma fromObject_roundtrip_entries:
  assumes x: "AccDiffData_fromObject s hyd obj w = (Inr x, w')"
    and s: "s = foldl (\<lambda>s p. registerPlugin p s) initial_statics ps"
    and dw: "distinct (map fst (w_plugins (o_weapon obj)))"
    and db: "distinct (map fst (bo_plugins (o_base obj)))"
    and dt: "\<forall>u \<in> set (o_targets obj). distinct (map fst (to_plugins u))"
  shows "plugins_roundtrip hyd (AccDiffWeapon_pluginSchema s) (w_plugins (weapon x))
           \<longleftrightarrow> list_all (entry_roundtrip hyd (AccDiffWeapon_pluginSchema s)) (w_plugins (weapon x))"
    and "plugins_roundtrip hyd (AccDiffBase_pluginSchema s) (b_plugins (base x))
           \<longleftrightarrow> list_all (entry_roundtrip hyd (AccDiffBase_pluginSchema s)) (b_plugins (base x))"
    and "\<forall>t \<in> set (targets x).
           plugins_roundtrip hyd (AccDiffTarget_pluginSchema s) (t_plugins t)
           \<longleftrightarrow> list_all (entry_roundtrip hyd (AccDiffTarget_pluginSchema s)) (t_plugins t)"
proof -
  let ?W = "AccDiffWeapon_pluginSchema s"
  let ?B = "AccDiffBase_pluginSchema s"
  let ?T = "AccDiffTarget_pluginSchema s"
  have d: "distinct (map fst ?W) \<and> distinct (map fst ?B) \<and> distinct (map fst ?T)"
    unfolding s by (rule registered_distinct) (simp_all add: initial_statics_def)
  from fromObject_parts [OF x] obtain aw ab ts0 where
    aw: "type_validate ?W (w_plugins (o_weapon obj)) = Inr aw"
      "hydrates hyd aw (w_plugins (weapon x))"
    and ab: "type_validate ?B (bo_plugins (o_base obj)) = Inr ab"
      "hydrates hyd ab (b_plugins (base x))"
    and dec: "list_all2 (decodes_target ?T w) (o_targets obj) ts0"
    and hy: "list_all2 (hydrates_target hyd x) ts0 (targets x)"
    by blast
  from validated_hydrated_keys [OF aw(1) dw aw(2)] d
  show "plugins_roundtrip hyd ?W (w_plugins (weapon x))
           \<longleftrightarrow> list_all (entry_roundtrip hyd ?W) (w_plugins (weapon x))"
    by (intro plugins_roundtrip_entries) simp_all
  from validated_hydrated_keys [OF ab(1) db ab(2)] d
  show "plugins_roundtrip hyd ?B (b_plugins (base x))
           \<longleftrightarrow> list_all (entry_roundtrip hyd ?B) (b_plugins (base x))"
    by (intro plugins_roundtrip_entries) simp_all
  show "\<forall>t \<in> set (targets x).
           plugins_roundtrip hyd ?T (t_plugins t)
           \<longleftrightarrow> list_all (entry_roundtrip hyd ?T) (t_plugins t)"
  proof
    fix t assume "t \<in> set (targets x)"
    with decoded_targets_keys [OF dec hy dt]
    have "distinct (map fst (t_plugins t))" "fst ` set ?T \<subseteq> fst ` set (t_plugins t)"
      by simp_all
    with d show "plugins_roundtrip hyd ?T (t_plugins t)
           \<longleftrightarrow> list_all (entry_roundtrip hyd ?T) (t_plugins t)"
      by (intro plugins_roundtrip_entries) simp_all
  qed
qed

subsection \<open>The totals\<close>

text \<open>
  Claim C2. For a hydrated base, \<open>total\<close> is accuracy minus difficulty, plus one for an
  accurate weapon, minus one for an inaccurate one, minus the cover unless the weapon is
  seeking. Against the same base with no cover, a cover lowers the total by exactly its
  number (None 0, Soft 1, Hard 2) when the weapon is not seeking, and not at all when it
  is.
\<close>

theorem AccDiffBase_total_formula:
  assumes "b_weapon b = Some wp"
  shows "fst (AccDiffBase_total w b) =
           Inr (b_accuracy b - b_difficulty b
                + (if accurate wp then 1 else 0)
                - (if inaccurate wp then 1 else 0)
                - (if seeking wp then 0 else b_cover b))
         \<and> (\<exists>n. fst (AccDiffBase_total w (b\<lparr>b_cover := Cover_value CoverNone\<rparr>)) = Inr n
                \<and> fst (AccDiffBase_total w (b\<lparr>b_cover := Cover_value c\<rparr>))
                    = Inr (if seeking wp then n else n - Cover_value c))
         \<and> Cover_value CoverNone = 0 \<and> Cover_value Soft = 1 \<and> Cover_value Hard = 2"
  using assms by (simp add: AccDiffBase_total_def)

theorem AccDiffBase_total_formula_witness:
  "b_weapon (ex_base\<lparr>b_cover := Cover_value Hard\<rparr>) = Some ex_weapon
   \<and> fst (AccDiffBase_total ex_world (ex_base\<lparr>b_cover := Cover_value Hard\<rparr>)) = Inr (- 1)"
proof -
  have h: "b_weapon (ex_base\<lparr>b_cover := Cover_value Hard\<rparr>) = Some ex_weapon"
    by (simp add: ex_base_def)
  from AccDiffBase_total_formula [OF h, where w = ex_world and c = Soft] h show ?thesis
    by (simp add: ex_base_def ex_weapon_def)
qed

text \<open>
  The total of a hydrated target, whatever the lookup of the lock-on does: when
  \<open>usingLockOn\<close> throws, so does \<open>total\<close>; otherwise \<open>total\<close> is the target's own
  accuracy minus difficulty, plus one for an accurate weapon, minus one for an inaccurate
  one, minus the target's own cover unless the weapon is seeking, plus the base's accuracy
  minus the base's difficulty, plus one exactly when \<open>usingLockOn\<close> returned an effect.
\<close>

lemma AccDiffTarget_total_cases:
  assumes "t_weapon t = Some wp" and "t_base t = Some b"
  shows "fst (AccDiffTarget_total w t) =
           (case fst (usingLockOn w t) of
              Inl e \<Rightarrow> Inl e
            | Inr eff \<Rightarrow>
                Inr (t_accuracy t - t_difficulty t
                     + (if accurate wp then 1 else 0)
                     - (if inaccurate wp then 1 else 0)
                     - (if seeking wp then 0 else t_cover t)
                     + (b_accuracy b - b_difficulty b)
                     + (if eff \<noteq> None then 1 else 0)))"
  using assms
  by (simp add: AccDiffTarget_total_def Let_def split: prod.splits sum.splits)

text \<open>
  Claim C3. For every hydrated target, \<open>total\<close> is to return the target's own term plus
  the base's accuracy minus the base's difficulty, plus one exactly when \<open>usingLockOn\<close>
  is truthy. The code computes that sum, but its lookup of the lock-on reads the status id
  of every effect it visits with no guard. The first target of the example is hydrated and
  has \<open>consumeLockOn\<close> set; in the scene where its actor carries an effect without
  \<open>core\<close> flags ahead of the lock-on, \<open>total\<close> throws a \<open>TypeError\<close> where the claim
  gives 2. The same happens for a token that has no actor. With \<open>consumeLockOn\<close> unset
  the lookup does not run and the total of the same target is 1.
\<close>

theorem AccDiffTarget_total_throws:
  "t_weapon (ex_target ''tokA'') = Some ex_weapon
   \<and> t_base (ex_target ''tokA'') = Some ex_base
   \<and> AccDiffTarget_total ex_world_flagless (ex_target ''tokA'')
       = (Inl TypeError, ex_world_flagless, ex_target ''tokA'')
   \<and> fst (AccDiffTarget_total (ex_world\<lparr>actor_effects := (\<lambda>t. None)\<rparr>) (ex_target ''tokA''))
       = Inl TypeError
   \<and> fst (AccDiffTarget_total ex_world_flagless ((ex_target ''tokA'')\<lparr>t_consumeLockOn := False\<rparr>))
       = Inr 1
   \<and> fst (AccDiffTarget_total ex_world (ex_target ''tokA'')) = Inr 2"
  by (simp add: AccDiffTarget_total_def usingLockOn_def lockOnAvailable_def ex_target_def
      ex_base_def ex_weapon_def ex_world_def ex_world_flagless_def)

text \<open>
  Claim C7. Evaluating \<open>total\<close> changes nothing: the base, the target and the world
  outside come back as they went in, and a second evaluation right after the first gives
  the same value. This holds for every base and target, hydrated or not.
\<close>

theorem total_mutates_nothing:
  "snd (AccDiffBase_total w b) = (w, b)
   \<and> snd (AccDiffTarget_total w t) = (w, t)
   \<and> (case AccDiffBase_total w b of (r, w', b') \<Rightarrow> fst (AccDiffBase_total w' b') = r)
   \<and> (case AccDiffTarget_total w t of (r, w', t') \<Rightarrow> fst (AccDiffTarget_total w' t') = r)"
  by (auto simp add: AccDiffBase_total_def AccDiffTarget_total_def usingLockOn_def
      lockOnAvailable_def Let_def split: option.splits prod.splits sum.splits)

text \<open>
  Claim C4, as stated: with \<open>consumeLockOn\<close> set and a lock-on on the target's actor,
  evaluating \<open>total\<close> includes the bonus and deletes the effect, so that a second
  evaluation no longer includes it. It fails: the first target of the example has a
  lock-on; its total is 2, one more than the total 1 of the second target, which differs
  only in having none; after the evaluation the effect is still there, and the second
  evaluation gives 2 again.
\<close>

theorem lockOn_consumed_counterexample:
  "fst (AccDiffTarget_total ex_world (ex_target ''tokA'')) = Inr 2
   \<and> fst (AccDiffTarget_total ex_world (ex_target ''tokB'')) = Inr 1
   \<and> (case AccDiffTarget_total ex_world (ex_target ''tokA'') of
        (r, w', t') \<Rightarrow>
          actor_effects w' (t_target t')
            = Some [\<lparr>effect_id = 7, flags_core = Some (Some ''lockon'')\<rparr>]
          \<and> fst (AccDiffTarget_total w' t') = Inr 2)"
  by (simp add: AccDiffTarget_total_def usingLockOn_def lockOnAvailable_def ex_target_def
      ex_base_def ex_weapon_def ex_world_def)

text \<open>
  Claim C4, amended. With \<open>consumeLockOn\<close> set, on a hydrated target whose lookup
  \<open>lockOnAvailable\<close> finds a lock-on on the target's actor, \<open>total\<close> includes the bonus
  of one and \<open>usingLockOn\<close> returns the effect found, but neither deletes it: the world is
  unchanged, so a second evaluation includes the bonus again. The bonus is gone once the
  effect has been deleted (by whoever holds what \<open>usingLockOn\<close> returned) and the lookup
  finds no other lock-on. Nothing is said here of a lookup that throws.
\<close>

theorem lockOn_not_consumed:
  assumes "t_weapon t = Some wp" and "t_base t = Some b" and "t_consumeLockOn t"
    and "fst (lockOnAvailable w t) = Inr (Some eff)"
  shows "(let raw = t_accuracy t - t_difficulty t
                   + (if accurate wp then 1 else 0)
                   - (if inaccurate wp then 1 else 0)
                   - (if seeking wp then 0 else t_cover t)
                   + b_accuracy b - b_difficulty b
          in AccDiffTarget_total w t = (Inr (raw + 1), w, t)
             \<and> usingLockOn w t = (Inr (Some eff), w, t)
             \<and> (case AccDiffTarget_total w t of
                  (r, w', t') \<Rightarrow> AccDiffTarget_total w' t' = (Inr (raw + 1), w', t'))
             \<and> (fst (lockOnAvailable (effect_delete (t_target t) eff w) t) = Inr None
                 \<longrightarrow> fst (AccDiffTarget_total (effect_delete (t_target t) eff w) t) = Inr raw))"
proof -
  from assms(4) have u: "usingLockOn w t = (Inr (Some eff), w, t)"
    using assms(3)
    by (cases "actor_effects w (t_target t)") (simp_all add: usingLockOn_def lockOnAvailable_def)
  have d: "fst (lockOnAvailable w' t) = Inr None \<Longrightarrow> usingLockOn w' t = (Inr None, w', t)"
    for w'
    using assms(3)
    by (cases "actor_effects w' (t_target t)") (simp_all add: usingLockOn_def lockOnAvailable_def)
  show ?thesis
    using assms(1,2) u d [of "effect_delete (t_target t) eff w"]
    by (simp add: AccDiffTarget_total_def Let_def)
qed

theorem lockOn_not_consumed_witness:
  "fst (lockOnAvailable ex_world (ex_target ''tokA''))
     = Inr (Some \<lparr>effect_id = 7, flags_core = Some (Some ''lockon'')\<rparr>)
   \<and> AccDiffTarget_total ex_world (ex_target ''tokA'') = (Inr 2, ex_world, ex_target ''tokA'')
   \<and> fst (AccDiffTarget_total
        (effect_delete ''tokA'' \<lparr>effect_id = 7, flags_core = Some (Some ''lockon'')\<rparr> ex_world)
        (ex_target ''tokA'')) = Inr 1"
proof -
  let ?t = "ex_target ''tokA''"
  let ?eff = "\<lparr>effect_id = 7, flags_core = Some (Some ''lockon'')\<rparr>"
  have h1: "t_weapon ?t = Some ex_weapon" and h2: "t_base ?t = Some ex_base"
    and h3: "t_consumeLockOn ?t"
    and h4: "fst (lockOnAvailable ex_world ?t) = Inr (Some ?eff)"
    by (simp_all add: ex_target_def ex_world_def lockOnAvailable_def)
  from lockOn_not_consumed [OF h1 h2 h3 h4] h4 show ?thesis
    by (simp add: ex_target_def ex_base_def ex_weapon_def ex_world_def Let_def
        lockOnAvailable_def effect_delete_def)
qed

subsection \<open>The constructor of the aggregate\<close>

text \<open>
  Claim C9, as stated: hydration writes each back-reference exactly once, and no
  back-reference is written at any other time. It fails: \<open>hydrate\<close> is a public method
  that writes the back-references whenever it is called. The first target of the example
  comes hydrated out of the constructor, its weapon being the aggregate's; a call of its
  \<open>hydrate\<close> with another aggregate writes both back-references again, and its total,
  which was 2, is 7.
\<close>

theorem hydrate_again_counterexample:
  "AccDiffData_new ex_hydrate ex_decoded = (Inr ex_data, ex_trace)
   \<and> targets ex_data ! 0 = ex_target ''tokA''
   \<and> t_weapon (ex_target ''tokA'') = Some (weapon ex_data)
   \<and> fst (AccDiffTarget_total ex_world (ex_target ''tokA'')) = Inr 2
   \<and> AccDiffTarget_hydrate ex_hydrate ex_other 0 (ex_target ''tokA'') =
       (Inr ((ex_target ''tokA'')\<lparr>t_weapon := Some (weapon ex_other),
                                   t_base := Some (base ex_other)\<rparr>),
        [Hydrate (TheTarget 0 (ex_target ''tokA'')), SetWeapon (TheTarget 0 (ex_target ''tokA'')),
         SetBase (TheTarget 0 (ex_target ''tokA'')),
         PluginHydrate (TheTarget 0 (ex_target ''tokA'')) ''example'' (Live True)])
   \<and> weapon ex_other \<noteq> weapon ex_data
   \<and> fst (AccDiffTarget_total ex_world
        ((ex_target ''tokA'')\<lparr>t_weapon := Some (weapon ex_other),
                                t_base := Some (base ex_other)\<rparr>)) = Inr 7"
  by (simp add: decode_defs example_defs ex_decoded_def ex_fresh_def ex_trace_def ex_other_def
      AccDiffTarget_total_def usingLockOn_def lockOnAvailable_def)

text \<open>
  Claim C9, amended. Whenever the constructor of the aggregate returns, its trace is the
  order of hydration the specification gives: the weapon, then the base, then each target
  in list order, each entity's plugin values being hydrated in key order after its
  back-references are written. In that run \<open>hydrate\<close> is called once on each entity and
  each back-reference is written exactly once: the base's weapon, then each target's
  weapon and base. In the result the title is the one given, the weapon and the base are
  the ones given with their plugin values hydrated, the base's weapon is the aggregate's
  weapon, and the targets are, place by place, the ones given with the aggregate's weapon
  and base as back-references and their plugin values hydrated. The constructor returns
  whenever every plugin value has a \<open>hydrate\<close> method. Nothing keeps the back-references
  from being written afterwards: a call of the base's or of a target's \<open>hydrate\<close>
  writes them again, whatever they were.
\<close>

theorem AccDiffData_new_hydration:
  "(\<forall>d tr. AccDiffData_new hyd obj = (Inr d, tr) \<longrightarrow>
      tr = hydration_order obj
      \<and> filter is_hydrate_call tr =
          Hydrate TheWeapon # Hydrate TheBase
            # map (\<lambda>(i, t). Hydrate (TheTarget i t)) (enumerate 0 (targets obj))
      \<and> filter is_backref_write tr =
          SetWeapon TheBase
            # concat (map (\<lambda>(i, t). target_writes i t) (enumerate 0 (targets obj)))
      \<and> distinct (filter is_backref_write tr)
      \<and> title d = title obj
      \<and> hydrates hyd (w_plugins (weapon obj)) (w_plugins (weapon d))
      \<and> weapon d = (weapon obj)\<lparr>w_plugins := w_plugins (weapon d)\<rparr>
      \<and> hydrates hyd (b_plugins (base obj)) (b_plugins (base d))
      \<and> base d = (base obj)\<lparr>b_weapon := Some (weapon d), b_plugins := b_plugins (base d)\<rparr>
      \<and> list_all2 (hydrates_target hyd d) (targets obj) (targets d))
   \<and> ((\<forall>v \<in> snd ` set (w_plugins (weapon obj)). hyd v \<noteq> None)
        \<and> (\<forall>v \<in> snd ` set (b_plugins (base obj)). hyd v \<noteq> None)
        \<and> (\<forall>t \<in> set (targets obj). \<forall>v \<in> snd ` set (t_plugins t). hyd v \<noteq> None)
      \<longrightarrow> (\<exists>d tr. AccDiffData_new hyd obj = (Inr d, tr)))
   \<and> (\<forall>b' tr. AccDiffBase_hydrate hyd d' b = (Inr b', tr) \<longrightarrow>
         b_weapon b' = Some (weapon d') \<and> filter is_backref_write tr = [SetWeapon TheBase])
   \<and> (\<forall>t' tr. AccDiffTarget_hydrate hyd d' i t = (Inr t', tr) \<longrightarrow>
         t_weapon t' = Some (weapon d') \<and> t_base t' = Some (base d')
         \<and> filter is_backref_write tr = target_writes i t)"
proof (intro conjI allI impI)
  fix d tr
  assume "AccDiffData_new hyd obj = (Inr d, tr)"
  then obtain wps tr1 bps tr2 ts tr3 where
    w: "hydrate_plugins hyd TheWeapon (w_plugins (weapon obj)) = (Inr wps, tr1)"
    and b: "hydrate_plugins hyd TheBase (b_plugins (base obj)) = (Inr bps, tr2)"
    and t: "hydrate_targets hyd
             (obj\<lparr>weapon := (weapon obj)\<lparr>w_plugins := wps\<rparr>,
                base := (base obj)\<lparr>b_weapon := Some ((weapon obj)\<lparr>w_plugins := wps\<rparr>),
                                 b_plugins := bps\<rparr>\<rparr>) 0 (targets obj) = (Inr ts, tr3)"
    and d: "d = obj\<lparr>weapon := (weapon obj)\<lparr>w_plugins := wps\<rparr>,
                base := (base obj)\<lparr>b_weapon := Some ((weapon obj)\<lparr>w_plugins := wps\<rparr>),
                                 b_plugins := bps\<rparr>,
                targets := ts\<rparr>"
    and tr: "tr = (Hydrate TheWeapon # tr1) @ (Hydrate TheBase # SetWeapon TheBase # tr2) @ tr3"
    unfolding AccDiffData_new_Inr_iff by blast
  from w have hw: "hydrates hyd (w_plugins (weapon obj)) wps"
    and tr1: "tr1 = plugin_calls TheWeapon (w_plugins (weapon obj))"
    by (simp_all add: hydrate_plugins_Inr_iff)
  from b have hb: "hydrates hyd (b_plugins (base obj)) bps"
    and tr2: "tr2 = plugin_calls TheBase (b_plugins (base obj))"
    by (simp_all add: hydrate_plugins_Inr_iff)
  note tr3 = hydrate_targets_Inr [OF t]
  show order: "tr = hydration_order obj"
    by (simp add: tr tr1 tr2 tr3(1) hydration_order_def)
  show "filter is_hydrate_call tr =
          Hydrate TheWeapon # Hydrate TheBase
            # map (\<lambda>(i, t). Hydrate (TheTarget i t)) (enumerate 0 (targets obj))"
    by (simp add: order hydration_order_def targets_order_filter)
  show wr: "filter is_backref_write tr =
          SetWeapon TheBase
            # concat (map (\<lambda>(i, t). target_writes i t) (enumerate 0 (targets obj)))"
    by (simp add: order hydration_order_def targets_order_filter)
  show "distinct (filter is_backref_write tr)"
    unfolding wr
    using distinct_target_writes [of 0 "targets obj"] SetWeapon_TheBase_notin [of 0 "targets obj"]
    by simp
  show "title d = title obj" by (simp add: d)
  show "hydrates hyd (w_plugins (weapon obj)) (w_plugins (weapon d))"
    using hw by (simp add: d)
  show "weapon d = (weapon obj)\<lparr>w_plugins := w_plugins (weapon d)\<rparr>" by (simp add: d)
  show "hydrates hyd (b_plugins (base obj)) (b_plugins (base d))"
    using hb by (simp add: d)
  show "base d = (base obj)\<lparr>b_weapon := Some (weapon d), b_plugins := b_plugins (base d)\<rparr>"
    by (simp add: d)
  show "list_all2 (hydrates_target hyd d) (targets obj) (targets d)"
    using tr3(2) by (simp add: d)
next
  assume a: "(\<forall>v \<in> snd ` set (w_plugins (weapon obj)). hyd v \<noteq> None)
        \<and> (\<forall>v \<in> snd ` set (b_plugins (base obj)). hyd v \<noteq> None)
        \<and> (\<forall>t \<in> set (targets obj). \<forall>v \<in> snd ` set (t_plugins t). hyd v \<noteq> None)"
  then obtain wps tr1 where "hydrate_plugins hyd TheWeapon (w_plugins (weapon obj)) = (Inr wps, tr1)"
    using hydrate_plugins_total [of "w_plugins (weapon obj)" hyd TheWeapon] by auto
  moreover from a obtain bps tr2 where "hydrate_plugins hyd TheBase (b_plugins (base obj)) = (Inr bps, tr2)"
    using hydrate_plugins_total [of "b_plugins (base obj)" hyd TheBase] by auto
  moreover from a obtain ts tr3 where "hydrate_targets hyd
             (obj\<lparr>weapon := (weapon obj)\<lparr>w_plugins := wps\<rparr>,
                base := (base obj)\<lparr>b_weapon := Some ((weapon obj)\<lparr>w_plugins := wps\<rparr>),
                                 b_plugins := bps\<rparr>\<rparr>) 0 (targets obj) = (Inr ts, tr3)"
    using hydrate_targets_total [of "targets obj" hyd _ 0] by meson
  ultimately show "\<exists>d tr. AccDiffData_new hyd obj = (Inr d, tr)"
    unfolding AccDiffData_new_Inr_iff by blast
next
  fix b' tr
  assume "AccDiffBase_hydrate hyd d' b = (Inr b', tr)"
  then show "b_weapon b' = Some (weapon d')" "filter is_backref_write tr = [SetWeapon TheBase]"
    by (auto simp add: AccDiffBase_hydrate_Inr_iff)
next
  fix t' tr
  assume "AccDiffTarget_hydrate hyd d' i t = (Inr t', tr)"
  then show "t_weapon t' = Some (weapon d')" "t_base t' = Some (base d')"
    "filter is_backref_write tr = target_writes i t"
    by (auto simp add: AccDiffTarget_hydrate_Inr_iff target_order_filter)
qed

theorem AccDiffData_new_hydration_witness:
  "AccDiffData_new ex_hydrate ex_decoded = (Inr ex_data, ex_trace)
   \<and> hydration_order ex_decoded = ex_trace
   \<and> filter is_hydrate_call ex_trace =
       [Hydrate TheWeapon, Hydrate TheBase, Hydrate (TheTarget 0 (ex_fresh ''tokA'')),
        Hydrate (TheTarget 1 (ex_fresh ''tokB''))]
   \<and> filter is_backref_write ex_trace =
       [SetWeapon TheBase,
        SetWeapon (TheTarget 0 (ex_fresh ''tokA'')), SetBase (TheTarget 0 (ex_fresh ''tokA'')),
        SetWeapon (TheTarget 1 (ex_fresh ''tokB'')), SetBase (TheTarget 1 (ex_fresh ''tokB''))]
   \<and> b_weapon (base ex_data) = Some (weapon ex_data)
   \<and> map t_base (targets ex_data) = [Some (base ex_data), Some (base ex_data)]"
proof -
  have h: "AccDiffData_new ex_hydrate ex_decoded = (Inr ex_data, ex_trace)"
    by (simp add: decode_defs example_defs ex_decoded_def ex_trace_def ex_fresh_def)
  have n: "enumerate 0 (targets ex_decoded) = [(0, ex_fresh ''tokA''), (1, ex_fresh ''tokB'')]"
    by (simp add: ex_decoded_def)
  from AccDiffData_new_hydration [of ex_hydrate ex_decoded, THEN conjunct1, rule_format, OF h]
  have "ex_trace = hydration_order ex_decoded"
    and "filter is_hydrate_call ex_trace =
          Hydrate TheWeapon # Hydrate TheBase
            # map (\<lambda>(i, t). Hydrate (TheTarget i t)) (enumerate 0 (targets ex_decoded))"
    and "filter is_backref_write ex_trace =
          SetWeapon TheBase
            # concat (map (\<lambda>(i, t). target_writes i t) (enumerate 0 (targets ex_decoded)))"
    by blast+
  then show ?thesis
    unfolding n using h by (simp add: ex_data_def ex_target_def ex_base_def target_writes_def)
qed

subsection \<open>What the factory builds\<close>

text \<open>
  Claim C10. \<open>fromParams\<close> never uses the supplied title as it is: the title of the plain
  object it builds, and of the instance it returns, is the supplied title followed by
  \<open>" - Accuracy and Difficulty"\<close> when a non-empty title is supplied, and
  \<open>"Accuracy and Difficulty"\<close> when the title is left out or empty.
\<close>

theorem fromParams_title:
  "(let expected = (case title_arg of
                      None \<Rightarrow> ''Accuracy and Difficulty''
                    | Some t \<Rightarrow> if t = [] then ''Accuracy and Difficulty''
                                else t @ '' - Accuracy and Difficulty'')
    in o_title (fromParams_obj s item tags title_arg targets_arg starting) = expected
       \<and> (\<forall>d w'. AccDiffData_fromParams s hyd item tags title_arg targets_arg starting w
                   = (Inr d, w')
              \<longrightarrow> title d = expected \<and> title_arg \<noteq> Some (title d)))"
proof -
  have 1: "o_title (fromParams_obj s item tags title_arg targets_arg starting) =
    (case title_arg of
       None \<Rightarrow> ''Accuracy and Difficulty''
     | Some t \<Rightarrow> if t = [] then ''Accuracy and Difficulty''
                 else t @ '' - Accuracy and Difficulty'')"
    by (simp add: fromParams_obj_def Let_def foldl_fromParams_plugin split: option.splits)
  show ?thesis
    unfolding Let_def AccDiffData_fromParams_def
    using 1 by (auto dest!: fromObject_fields(1) split: option.splits)
qed

theorem fromParams_title_witness:
  "AccDiffData_fromParams ex_statics ex_hydrate None (Some []) (Some ''Shot'')
     (Some [''tokA'', ''tokB'']) (Some (1, 0)) ex_world = (Inr ex_data, ex_world)
   \<and> title ex_data = ''Shot - Accuracy and Difficulty''
   \<and> o_title (fromParams_obj ex_statics None (Some []) None (Some [''tokA'']) None
        :: exval AccDiffData_obj) = ''Accuracy and Difficulty''"
proof -
  have h: "AccDiffData_fromParams ex_statics ex_hydrate None (Some []) (Some ''Shot'')
     (Some [''tokA'', ''tokB'']) (Some (1, 0)) ex_world = (Inr ex_data, ex_world)"
    by (simp add: AccDiffData_fromParams_def ex_fromParams_obj ex_fromObject)
  from fromParams_title [of "Some ''Shot''" ex_statics None "Some []"
      "Some [''tokA'', ''tokB'']" "Some (1, 0)" ex_hydrate ex_world,
      unfolded Let_def, THEN conjunct2, rule_format, OF h]
    fromParams_title [of None ex_statics None "Some []" "Some [''tokA'']" None ex_hydrate
      ex_world, unfolded Let_def, THEN conjunct1]
    h
  show ?thesis by simp
qed

text \<open>
  Claim C6, as stated: a tag whose logical id is \<open>accurate\<close>, \<open>inaccurate\<close> or \<open>seeking\<close>
  sets the flag of that name. It fails: the ids the source matches are \<open>tg_accurate\<close>,
  \<open>tg_inaccurate\<close> and \<open>tg_seeking\<close>; tags with the three ids of the claim leave all flags
  false.
\<close>

theorem fromParams_tags_counterexample:
  "map_sum id (\<lambda>d. (accurate (weapon d), inaccurate (weapon d), seeking (weapon d)))
     (fst (AccDiffData_fromParams ex_statics ex_hydrate None
        (Some [\<lparr>Tag_LID = ''accurate''\<rparr>, \<lparr>Tag_LID = ''inaccurate''\<rparr>, \<lparr>Tag_LID = ''seeking''\<rparr>])
        (Some ''Shot'') (Some [''tokA'', ''tokB'']) (Some (1, 0)) ex_world))
   = Inr (False, False, False)"
  by (simp add: AccDiffData_fromParams_def fromParams_obj_def fromParams_target_def
      fromParams_plugin_def tag_switch_def decode_defs example_defs)

text \<open>
  Claim C6, amended. The weapon flags of the plain object \<open>fromParams\<close> builds, and of the
  instance it returns, come from the tags' logical ids: \<open>accurate\<close> is set exactly when
  some tag has the id \<open>tg_accurate\<close>, \<open>inaccurate\<close> exactly when some tag has
  \<open>tg_inaccurate\<close>, \<open>seeking\<close> exactly when some tag has \<open>tg_seeking\<close>. A tag with any
  other id leaves the flags as they are, and a tag met a second time changes nothing.
\<close>

theorem fromParams_tags:
  "(let lids = Tag_LID ` set (case tags of None \<Rightarrow> [] | Some ts \<Rightarrow> ts);
        wp = o_weapon (fromParams_obj s item tags title_arg targets_arg starting)
    in (accurate wp \<longleftrightarrow> ''tg_accurate'' \<in> lids)
       \<and> (inaccurate wp \<longleftrightarrow> ''tg_inaccurate'' \<in> lids)
       \<and> (seeking wp \<longleftrightarrow> ''tg_seeking'' \<in> lids)
       \<and> (\<forall>d w'. AccDiffData_fromParams s hyd item tags title_arg targets_arg starting w
                   = (Inr d, w')
              \<longrightarrow> (accurate (weapon d) \<longleftrightarrow> ''tg_accurate'' \<in> lids)
                  \<and> (inaccurate (weapon d) \<longleftrightarrow> ''tg_inaccurate'' \<in> lids)
                  \<and> (seeking (weapon d) \<longleftrightarrow> ''tg_seeking'' \<in> lids)))
   \<and> (Tag_LID tag \<noteq> ''tg_accurate'' \<and> Tag_LID tag \<noteq> ''tg_inaccurate''
        \<and> Tag_LID tag \<noteq> ''tg_seeking'' \<longrightarrow> tag_switch wp0 tag = wp0)
   \<and> tag_switch (tag_switch wp0 tag) tag = tag_switch wp0 tag"
proof -
  let ?obj = "fromParams_obj s item tags title_arg targets_arg starting"
  let ?lids = "Tag_LID ` set (case tags of None \<Rightarrow> [] | Some ts \<Rightarrow> ts)"
  have a: "accurate (o_weapon ?obj) \<longleftrightarrow> ''tg_accurate'' \<in> ?lids"
    by (simp add: fromParams_obj_def Let_def foldl_fromParams_plugin foldl_tag_switch)
  have b: "inaccurate (o_weapon ?obj) \<longleftrightarrow> ''tg_inaccurate'' \<in> ?lids"
    by (simp add: fromParams_obj_def Let_def foldl_fromParams_plugin foldl_tag_switch)
  have c: "seeking (o_weapon ?obj) \<longleftrightarrow> ''tg_seeking'' \<in> ?lids"
    by (simp add: fromParams_obj_def Let_def foldl_fromParams_plugin foldl_tag_switch)
  have d: "accurate (weapon d) = accurate (o_weapon ?obj)
      \<and> inaccurate (weapon d) = inaccurate (o_weapon ?obj)
      \<and> seeking (weapon d) = seeking (o_weapon ?obj)"
    if "AccDiffData_fromParams s hyd item tags title_arg targets_arg starting w = (Inr d, w')"
    for d w'
    using that fromObject_fields(2-4) [of s hyd ?obj w d w']
    by (simp add: AccDiffData_fromParams_def)
  have e: "Tag_LID tag \<noteq> ''tg_accurate'' \<and> Tag_LID tag \<noteq> ''tg_inaccurate''
        \<and> Tag_LID tag \<noteq> ''tg_seeking'' \<longrightarrow> tag_switch wp0 tag = wp0"
    by (simp add: tag_switch_def)
  have f: "tag_switch (tag_switch wp0 tag) tag = tag_switch wp0 tag"
    by (simp add: tag_switch_def)
  show ?thesis
    unfolding Let_def using a b c d e f by blast
qed

theorem fromParams_tags_witness:
  "map_sum id (\<lambda>d. (accurate (weapon d), inaccurate (weapon d), seeking (weapon d)))
     (fst (AccDiffData_fromParams ex_statics ex_hydrate None
        (Some [\<lparr>Tag_LID = ''tg_accurate''\<rparr>, \<lparr>Tag_LID = ''tg_seeking''\<rparr>])
        (Some ''Shot'') (Some [''tokA'', ''tokB'']) (Some (1, 0)) ex_world))
   = Inr (True, False, True)"
proof -
  let ?tags = "Some [\<lparr>Tag_LID = ''tg_accurate''\<rparr>, \<lparr>Tag_LID = ''tg_seeking''\<rparr>]"
  let ?d = "ex_data\<lparr>weapon := ex_weapon\<lparr>accurate := True, seeking := True\<rparr>,
      base := ex_base\<lparr>b_weapon := Some (ex_weapon\<lparr>accurate := True, seeking := True\<rparr>)\<rparr>,
      targets := map (\<lambda>tok. (ex_target tok)\<lparr>
          t_weapon := Some (ex_weapon\<lparr>accurate := True, seeking := True\<rparr>),
          t_base := Some (ex_base\<lparr>b_weapon := Some (ex_weapon\<lparr>accurate := True, seeking := True\<rparr>)\<rparr>)\<rparr>)
        [''tokA'', ''tokB'']\<rparr>"
  have h: "AccDiffData_fromParams ex_statics ex_hydrate None ?tags
        (Some ''Shot'') (Some [''tokA'', ''tokB'']) (Some (1, 0)) ex_world = (Inr ?d, ex_world)"
    by (simp add: AccDiffData_fromParams_def fromParams_obj_def fromParams_target_def
        fromParams_plugin_def tag_switch_def decode_defs example_defs)
  from fromParams_tags [of ?tags ex_statics None "Some ''Shot''" "Some [''tokA'', ''tokB'']"
      "Some (1, 0)" ex_hydrate ex_world "\<lparr>Tag_LID = ''tg_accurate''\<rparr>" ex_weapon,
      unfolded Let_def, THEN conjunct1, THEN conjunct2, THEN conjunct2, THEN conjunct2,
      rule_format, OF h]
  show ?thesis unfolding h by simp
qed

subsection \<open>What decoding rejects\<close>

text \<open>
  Claim C8, as stated: when a target id of the plain object is not a token of the current
  scene, decoding notifies the user and then fails. It fails to notify here: the first
  target of this object names a token that is not in the scene and has no entry for the
  registered plugin, so it fails its schema, its constructor never runs, and decoding
  ends in a validation error with no notification.
\<close>

theorem unresolved_target_counterexample:
  "tokens_get ex_world (to_target_id (hd (o_targets ex_obj_stale))) = None
   \<and> AccDiffData_fromObject ex_statics ex_hydrate ex_obj_stale ex_world =
       (Inl (ValidationError [[Key ''targets'', Index 0, Key ''plugins'', Key ''example'']]),
        ex_world)
   \<and> notifications ex_world = []"
  by (simp add: decode_defs example_defs ex_obj_stale_def)

text \<open>
  Claim C8, amended. When a target id of the plain object is not a token of the current
  scene, decoding fails and produces no instance, partial or otherwise. When that target
  passes its schema, the user is notified and \<open>Token not found\<close> is thrown. When every
  target with such an id fails its schema, the constructor of none of them runs:
  decoding ends in a validation error and nothing is notified.
\<close>

theorem unresolved_target_aborts:
  assumes "u \<in> set (o_targets obj)" and "tokens_get w (to_target_id u) = None"
  shows "(\<exists>e. fst (AccDiffData_fromObject s hyd obj w) = Inl e \<and> e \<noteq> TypeError)
         \<and> ((\<exists>v. AccDiffTarget_schemaCodec_validate (AccDiffTarget_pluginSchema s) u = Inr v)
              \<longrightarrow> AccDiffData_fromObject s hyd obj w =
                    (Inl TokenNotFound,
                     notifications_error ''Trying to access tokens from a different scene!'' w))
         \<and> ((\<forall>u' \<in> set (o_targets obj). tokens_get w (to_target_id u') = None
                \<longrightarrow> (\<exists>errs. AccDiffTarget_schemaCodec_validate (AccDiffTarget_pluginSchema s) u'
                              = Inl errs))
              \<longrightarrow> (\<exists>errs. AccDiffData_fromObject s hyd obj w = (Inl (ValidationError errs), w)))"
proof (intro conjI impI)
  let ?ps = "AccDiffTarget_pluginSchema s"
  from assms(2) have un: "to_target_id u \<notin> set (scene_tokens w)"
    by (simp add: tokens_get_eq split: if_splits)
  show "\<exists>e. fst (AccDiffData_fromObject s hyd obj w) = Inl e \<and> e \<noteq> TypeError"
  proof (cases "target_passes ?ps u")
    case True
    with assms(1) un have "\<exists>u \<in> set (o_targets obj). target_passes ?ps u
        \<and> to_target_id u \<notin> set (scene_tokens w)" by blast
    from fromObject_throws [OF this] show ?thesis by simp
  next
    case False
    with assms(1) have "\<not> object_passes s obj"
      by (auto simp add: object_passes_def list_all_iff)
    then show ?thesis by (rule fromObject_not_TypeError)
  qed
  {
    assume "\<exists>v. AccDiffTarget_schemaCodec_validate ?ps u = Inr v"
    then have "target_passes ?ps u"
      by (simp add: AccDiffTarget_schemaCodec_validate_passes)
    with assms(1) un have "\<exists>u \<in> set (o_targets obj). target_passes ?ps u
        \<and> to_target_id u \<notin> set (scene_tokens w)" by blast
    from fromObject_throws [OF this]
    show "AccDiffData_fromObject s hyd obj w =
        (Inl TokenNotFound,
         notifications_error ''Trying to access tokens from a different scene!'' w)" .
  }
  {
    assume a: "\<forall>u' \<in> set (o_targets obj). tokens_get w (to_target_id u') = None
        \<longrightarrow> (\<exists>errs. AccDiffTarget_schemaCodec_validate ?ps u' = Inl errs)"
    have np: "\<not> target_passes ?ps u'"
      if "u' \<in> set (o_targets obj)" "to_target_id u' \<notin> set (scene_tokens w)" for u'
    proof -
      from that a obtain errs where "AccDiffTarget_schemaCodec_validate ?ps u' = Inl errs"
        by (auto simp add: tokens_get_eq)
      then show ?thesis
        using AccDiffTarget_schemaCodec_validate_passes [of ?ps u'] by auto
    qed
    then have 1: "\<not> (\<exists>u \<in> set (o_targets obj). target_passes ?ps u
        \<and> to_target_id u \<notin> set (scene_tokens w))" by blast
    from np [OF assms(1) un] assms(1) have 2: "\<not> object_passes s obj"
      by (auto simp add: object_passes_def list_all_iff)
    from fromObject_invalid [OF 1 2, of hyd]
    show "\<exists>errs. AccDiffData_fromObject s hyd obj w = (Inl (ValidationError errs), w)"
      by blast
  }
qed

theorem unresolved_target_aborts_witness:
  "tokens_get ex_world ''gone'' = None
   \<and> AccDiffData_fromObject ex_statics ex_hydrate ex_obj_gone ex_world =
       (Inl TokenNotFound,
        ex_world\<lparr>notifications := [''Trying to access tokens from a different scene!'']\<rparr>)"
proof -
  let ?u = "\<lparr>to_target_id = ''gone'', to_accuracy = 0, to_difficulty = 0, to_cover = 0,
         to_consumeLockOn = True, to_plugins = [(''example'', Plain True)]\<rparr>"
  have h1: "?u \<in> set (o_targets ex_obj_gone)" by (simp add: ex_obj_gone_def)
  have h2: "tokens_get ex_world (to_target_id ?u) = None"
    by (simp add: tokens_get_def ex_world_def)
  have h3: "\<exists>v. AccDiffTarget_schemaCodec_validate (AccDiffTarget_pluginSchema ex_statics) ?u
      = Inr v"
    by (simp add: decode_defs example_defs)
  from unresolved_target_aborts [OF h1 h2, of ex_statics ex_hydrate, THEN conjunct2,
      THEN conjunct1, rule_format, OF h3] h2
  show ?thesis by (simp add: notifications_error_def ex_world_def)
qed




subsection \<open>Round trip\<close>

text \<open>
  Claim C1, as stated: under any configuration of registered plugins, decoding
  \<open>x.toObject()\<close> gives an instance whose fields, plugin entries included, are those of
  \<open>x\<close>. It fails: register a plugin whose codec writes its flag as false whenever it
  encodes. The instance decoded from a plain object whose flag is true holds the flag
  true; its encoding holds false, and decoding that gives an instance that holds false.
\<close>

theorem toObject_fromObject_roundtrip_counterexample:
  "AccDiffData_fromObject ex_lossy_statics ex_hydrate ex_lossy_obj ex_world
     = (Inr (ex_lossy_data True), ex_world)
   \<and> AccDiffData_fromObject ex_lossy_statics ex_hydrate
       (AccDiffData_toObject ex_lossy_statics (ex_lossy_data True)) ex_world
     = (Inr (ex_lossy_data False), ex_world)
   \<and> b_plugins (base (ex_lossy_data True)) = [(''lossy'', Live True)]
   \<and> b_plugins (base (ex_lossy_data False)) = [(''lossy'', Live False)]
   \<and> ex_lossy_data False \<noteq> ex_lossy_data True"
  by (simp add: decode_defs encode_defs ex_lossy_statics_simps ex_lossy_codec_def ex_codec_def
      ex_hydrate_def ex_world_def ex_weapon_def ex_base_def ex_lossy_obj_def ex_lossy_data_def)

text \<open>
  Claim C1, amended. For every instance \<open>x\<close> that \<open>fromObject\<close> constructed, under any
  registered plugins, decoding \<open>x.toObject()\<close> in the same scene gives back \<open>x\<close>, equal
  in every field, exactly when each \<open>plugins\<close> object of \<open>x\<close> (the weapon's, the base's
  and each target's) survives the round trip on its own: its encoding validates against
  the registered schema and the validated entries hydrate to the entries \<open>x\<close> has.
  Whatever the plugins do, when decoding \<open>x.toObject()\<close> gives an instance at all, the
  scene is as it was and the instance has the title of \<open>x\<close>, its weapon flags, its base's
  accuracy, difficulty and cover, and each target's token, accuracy, difficulty, cover
  and \<open>consumeLockOn\<close>: only plugin entries can differ. When the schemas come from
  registering plugins one after the other, and no \<open>plugins\<close> object of the plain object
  that \<open>x\<close> was decoded from lists a key twice, surviving is a matter of each entry: an
  entry under a registered key survives when the plugin's codec validates its own encoding
  of the entry to a value that hydrates to the entry; an entry under any other key, when
  it hydrates to itself.
\<close>

theorem toObject_fromObject_roundtrip:
  assumes "AccDiffData_fromObject s hyd obj w = (Inr x, w')"
  shows "(AccDiffData_fromObject s hyd (AccDiffData_toObject s x) w' = (Inr x, w') \<longleftrightarrow>
            plugins_roundtrip hyd (AccDiffWeapon_pluginSchema s) (w_plugins (weapon x))
            \<and> plugins_roundtrip hyd (AccDiffBase_pluginSchema s) (b_plugins (base x))
            \<and> list_all (\<lambda>t. plugins_roundtrip hyd (AccDiffTarget_pluginSchema s) (t_plugins t))
                (targets x))
         \<and> (\<forall>y w''. AccDiffData_fromObject s hyd (AccDiffData_toObject s x) w' = (Inr y, w'')
              \<longrightarrow> w'' = w' \<and> title y = title x
                  \<and> weapon_flags (weapon y) = weapon_flags (weapon x)
                  \<and> base_numbers (base y) = base_numbers (base x)
                  \<and> map target_fields (targets y) = map target_fields (targets x))
         \<and> (s = foldl (\<lambda>s p. registerPlugin p s) initial_statics ps
              \<and> distinct (map fst (w_plugins (o_weapon obj)))
              \<and> distinct (map fst (bo_plugins (o_base obj)))
              \<and> (\<forall>u \<in> set (o_targets obj). distinct (map fst (to_plugins u)))
            \<longrightarrow> (AccDiffData_fromObject s hyd (AccDiffData_toObject s x) w' = (Inr x, w') \<longleftrightarrow>
                   list_all (entry_roundtrip hyd (AccDiffWeapon_pluginSchema s))
                     (w_plugins (weapon x))
                   \<and> list_all (entry_roundtrip hyd (AccDiffBase_pluginSchema s))
                       (b_plugins (base x))
                   \<and> list_all (\<lambda>t. list_all (entry_roundtrip hyd (AccDiffTarget_pluginSchema s))
                                  (t_plugins t)) (targets x)))"
proof -
  let ?again = "AccDiffData_fromObject s hyd (AccDiffData_toObject s x) w' = (Inr x, w')"
  let ?R = "plugins_roundtrip hyd (AccDiffWeapon_pluginSchema s) (w_plugins (weapon x))
        \<and> plugins_roundtrip hyd (AccDiffBase_pluginSchema s) (b_plugins (base x))
        \<and> list_all (\<lambda>t. plugins_roundtrip hyd (AccDiffTarget_pluginSchema s) (t_plugins t))
            (targets x)"
  let ?E = "list_all (entry_roundtrip hyd (AccDiffWeapon_pluginSchema s)) (w_plugins (weapon x))
        \<and> list_all (entry_roundtrip hyd (AccDiffBase_pluginSchema s)) (b_plugins (base x))
        \<and> list_all (\<lambda>t. list_all (entry_roundtrip hyd (AccDiffTarget_pluginSchema s))
                       (t_plugins t)) (targets x)"
  have 1: ?R if ?again
    using fromObject_roundtrip_only_if [OF that] by (simp add: list_all_iff)
  have 2: ?again if ?R
    using that fromObject_roundtrip_if [OF assms] by (simp add: list_all_iff)
  have 3: "w'' = w' \<and> title y = title x
      \<and> weapon_flags (weapon y) = weapon_flags (weapon x)
      \<and> base_numbers (base y) = base_numbers (base x)
      \<and> map target_fields (targets y) = map target_fields (targets x)"
    if "AccDiffData_fromObject s hyd (AccDiffData_toObject s x) w' = (Inr y, w'')" for y w''
    using fromObject_toObject_fields [OF that] .
  have 4: "?R \<longleftrightarrow> ?E"
    if "s = foldl (\<lambda>s p. registerPlugin p s) initial_statics ps
         \<and> distinct (map fst (w_plugins (o_weapon obj)))
         \<and> distinct (map fst (bo_plugins (o_base obj)))
         \<and> (\<forall>u \<in> set (o_targets obj). distinct (map fst (to_plugins u)))"
  proof -
    from that have h: "s = foldl (\<lambda>s p. registerPlugin p s) initial_statics ps"
      "distinct (map fst (w_plugins (o_weapon obj)))"
      "distinct (map fst (bo_plugins (o_base obj)))"
      "\<forall>u \<in> set (o_targets obj). distinct (map fst (to_plugins u))"
      by simp_all
    note e = fromObject_roundtrip_entries [OF assms h]
    from e(3) have "list_all (\<lambda>t. plugins_roundtrip hyd (AccDiffTarget_pluginSchema s) (t_plugins t))
            (targets x)
        \<longleftrightarrow> list_all (\<lambda>t. list_all (entry_roundtrip hyd (AccDiffTarget_pluginSchema s))
                       (t_plugins t)) (targets x)"
      by (simp add: list_all_iff)
    with e(1,2) show ?thesis by simp
  qed
  from 1 2 3 4 show ?thesis by blast
qed

theorem toObject_fromObject_roundtrip_witness:
  "AccDiffData_fromObject ex_statics ex_hydrate ex_obj ex_world = (Inr ex_data, ex_world)
   \<and> AccDiffData_toObject ex_statics ex_data = ex_obj
   \<and> plugins_roundtrip ex_hydrate (AccDiffBase_pluginSchema ex_statics)
       (b_plugins (base ex_data))
   \<and> AccDiffData_fromObject ex_statics ex_hydrate (AccDiffData_toObject ex_statics ex_data)
       ex_world = (Inr ex_data, ex_world)
   \<and> list_all (entry_roundtrip ex_hydrate (AccDiffBase_pluginSchema ex_statics))
       (b_plugins (base ex_data))"
proof -
  have r: "plugins_roundtrip ex_hydrate (AccDiffWeapon_pluginSchema ex_statics)
             (w_plugins (weapon ex_data))
        \<and> plugins_roundtrip ex_hydrate (AccDiffBase_pluginSchema ex_statics)
             (b_plugins (base ex_data))
        \<and> list_all (\<lambda>t. plugins_roundtrip ex_hydrate (AccDiffTarget_pluginSchema ex_statics)
             (t_plugins t)) (targets ex_data)"
    by (simp add: plugins_roundtrip_def type_validate_def type_encode_def example_defs
        object_set_name example_keys)
  have h: "ex_statics = foldl (\<lambda>s p. registerPlugin p s) initial_statics [ex_plugin]
        \<and> distinct (map fst (w_plugins (o_weapon ex_obj)))
        \<and> distinct (map fst (bo_plugins (o_base ex_obj)))
        \<and> (\<forall>u \<in> set (o_targets ex_obj). distinct (map fst (to_plugins u)))"
    by (simp add: ex_statics_def ex_obj_def ex_weapon_def)
  note t = toObject_fromObject_roundtrip [OF ex_fromObject, of "[ex_plugin]"]
  from t [THEN conjunct1, THEN iffD2, OF r]
  have again: "AccDiffData_fromObject ex_statics ex_hydrate
      (AccDiffData_toObject ex_statics ex_data) ex_world = (Inr ex_data, ex_world)" .
  from t [THEN conjunct2, THEN conjunct2, THEN mp, OF h, THEN iffD1, OF again]
    r again ex_fromObject ex_toObject
  show ?thesis by simp
qed

end
